theory Spec2Isabelle
  imports Complex_Main "HOL-Library.Char_ord" "HOL-Library.List_Lexorder"
    "HOL-Library.Product_Lexorder" "HOL-Library.Multiset" "HOL-Library.Log_Nat"
begin

section \<open>Data model\<close>

text \<open>
  The program is \<^verbatim>\<open>phylodist/histogram.py\<close>. It works on pandas tables. A table is
  modelled by its observable content: the column labels, the row labels (the index) and the
  cells, together with the names attached to the two axes.

  A label is a plain string (a sample identifier, a column name, a taxonomy value at the
  first level) or a Python tuple of strings (the prefix of taxonomy values that a group-by
  on several columns produces).
\<close>

datatype label = Scalar string | Tuple "string list"

text \<open>
  A cell is null, an integer, a float or a string. A float is a float64: the cell holds the
  rational number that the float denotes.
\<close>

datatype cell = Null | IntV int | FloatV rat | StrV string

text \<open>
  The exceptions that the program and the library raise, by their class. The class of the
  exception that \<^verbatim>\<open>pd.merge\<close> raises for an operand that is not a table depends on the
  version of the library (\<^verbatim>\<open>AttributeError\<close> in some, \<^verbatim>\<open>TypeError\<close> in others);
  \<open>MergeOperandError\<close> stands for it, with the type of the operand.
\<close>

datatype error =
  TypeError string | ValueError string | KeyError string | IndexError string
| UnboundLocalError string | MergeOperandError string

text \<open>
  A sample table (the argument \<^verbatim>\<open>phylodistDataFrame\<close>): one column per taxonomy level
  name, one row per record; a taxonomy value is a string, or null (\<open>None\<close>).
\<close>

record sample_table =
  st_columns :: "string list"
  st_rows :: "string option list list"

text \<open>A pandas Series (the result of \<^verbatim>\<open>groupby(...).size()\<close>).\<close>

record series =
  s_names :: "string option list"
  s_items :: "(label \<times> cell) list"

text \<open>
  A pandas DataFrame. \<open>body\<close> lists the rows in order, each with its index label and one
  cell per column (a DataFrame is rectangular). \<open>index_names\<close> are the names of the levels
  of the row index (\<^verbatim>\<open>df.index.names\<close>; a flat index has one). \<open>attr_names\<close> is the plain
  Python attribute \<^verbatim>\<open>names\<close> that line 117 of the source stores on the DataFrame
  object. The names of the column axis are not part of the model: the program never reads
  them, and after each transposition it assigns the names of the index anew.
\<close>

record frame =
  columns :: "label list"
  index_names :: "string option list"
  body :: "(label \<times> cell list) list"
  attr_names :: "string list option"

definition index :: "frame \<Rightarrow> label list" where
  "index f = map fst (body f)"

fun position :: "'a \<Rightarrow> 'a list \<Rightarrow> nat option" where
  "position x [] = None"
| "position x (y # ys) = (if x = y then Some 0 else map_option Suc (position x ys))"

definition cell_at :: "cell list \<Rightarrow> nat \<Rightarrow> cell" where
  "cell_at r j = (if j < length r then r ! j else Null)"

definition column_cells :: "frame \<Rightarrow> nat \<Rightarrow> cell list" where
  "column_cells f j = map (\<lambda>(k, r). cell_at r j) (body f)"

definition cell_num :: "cell \<Rightarrow> rat" where
  "cell_num c = (case c of IntV n \<Rightarrow> of_int n | FloatV x \<Rightarrow> x | _ \<Rightarrow> 0)"

definition cell_int :: "cell \<Rightarrow> int" where
  "cell_int c = (case c of IntV n \<Rightarrow> n | _ \<Rightarrow> 0)"

section \<open>Floating-point numbers\<close>

text \<open>
  Python floats and the float columns of a table are float64 numbers. The result of an
  arithmetic operation on floats, and of the conversion of an integer to a float, is the exact
  result rounded to the nearest number with a mantissa of 53 bits, and to the one with an
  even mantissa when two are equally near. \<open>binary_exponent x\<close> is the exponent \<open>e\<close> with
  \<open>2^e \<le> x < 2^(e + 1)\<close> for a positive \<open>x\<close>; the numbers with 53 bits between these two
  powers are the multiples of \<open>2^(e - 52)\<close>. The bounds of the exponent of a float64 (overflow
  to infinity above \<open>2^1024\<close>, loss of bits below \<open>2^-1022\<close>) are left out: the floats of
  the program are counts and percentages.
\<close>

definition round_half_even :: "rat \<Rightarrow> int" where
  "round_half_even y =
     (let n = \<lfloor>y\<rfloor>; r = y - of_int n
      in if r < 1 / 2 then n else if 1 / 2 < r then n + 1 else if even n then n else n + 1)"

definition binary_exponent :: "rat \<Rightarrow> int" where
  "binary_exponent x =
     (let (a, b) = quotient_of x; k = bitlen a - bitlen b
      in if power_int 2 k \<le> x then k else k - 1)"

definition float64 :: "rat \<Rightarrow> rat" where
  "float64 x =
     (if x = 0 then 0
      else let ulp = power_int 2 (binary_exponent \<bar>x\<bar> - 52)
           in of_int (round_half_even (x / ulp)) * ulp)"

section \<open>The library operations used by \<^verbatim>\<open>computeAll\<close>\<close>

text \<open>
  \<^verbatim>\<open>df.groupby(by).size()\<close>: the rows are grouped by their values in the columns \<open>by\<close>;
  a row with a null in one of these columns belongs to no group (pandas excludes null group
  keys); the groups come in sorted key order; a group-by on one column gives plain labels,
  a group-by on several columns gives tuples. A column that the table lacks is a KeyError,
  with one exception: when the list \<open>by\<close> has as many entries as the table has rows and one
  of them is not a column, the library takes the list itself as the labels of the rows, and
  counts how often each entry occurs.
\<close>

fun positions :: "string list \<Rightarrow> string list \<Rightarrow> error + nat list" where
  "positions cols [] = Inr []"
| "positions cols (c # cs) =
     (case position c cols of
        None \<Rightarrow> Inl (KeyError c)
      | Some j \<Rightarrow> (case positions cols cs of Inl e \<Rightarrow> Inl e | Inr js \<Rightarrow> Inr (j # js)))"

definition row_key :: "nat list \<Rightarrow> string option list \<Rightarrow> string list option" where
  "row_key ps r = those (map (\<lambda>j. if j < length r then r ! j else None) ps)"

definition group_label :: "string list \<Rightarrow> label" where
  "group_label g = (case g of [s] \<Rightarrow> Scalar s | _ \<Rightarrow> Tuple g)"

definition group_keys :: "nat list \<Rightarrow> sample_table \<Rightarrow> string list list" where
  "group_keys ps df = List.map_filter (row_key ps) (st_rows df)"

definition groupby_size :: "string list \<Rightarrow> sample_table \<Rightarrow> error + series" where
  "groupby_size by df =
     (if by = [] then Inl (ValueError ''No group keys passed!'')
      else if length by = length (st_rows df) \<and> \<not> set by \<subseteq> set (st_columns df)
      then Inr \<lparr>s_names = [None],
                s_items = map (\<lambda>g. (Scalar g, IntV (int (count_list by g)))) (sort (remdups by))\<rparr>
      else case positions (st_columns df) by of
        Inl e \<Rightarrow> Inl e
      | Inr ps \<Rightarrow>
          (let keys = group_keys ps df
           in Inr \<lparr>s_names = map Some by,
                   s_items = map (\<lambda>g. (group_label g, IntV (int (count_list keys g))))
                                 (sort (remdups keys))\<rparr>))"

text \<open>\<^verbatim>\<open>pd.DataFrame({c: s})\<close>: a table with the single column \<open>c\<close>.\<close>

definition DataFrame_of :: "string \<Rightarrow> series \<Rightarrow> frame" where
  "DataFrame_of c s =
     \<lparr>columns = [Scalar c], index_names = s_names s,
      body = map (\<lambda>(k, v). (k, [v])) (s_items s), attr_names = None\<rparr>"

text \<open>
  \<^verbatim>\<open>df.sort(c, ascending=False)\<close>. pandas computes an indexer with numpy's argsort and takes
  the rows in that order. The call passes no \<^verbatim>\<open>kind\<close>, so the library's default
  algorithm is used, which the library documents as not stable. The indexer is therefore a
  parameter of the model; what the library guarantees of it is \<open>descending_argsort\<close>: it is
  a permutation of the row positions that puts the values in non-increasing order.
\<close>

type_synonym argsort = "cell list \<Rightarrow> nat list"

definition descending_argsort :: "argsort \<Rightarrow> bool" where
  "descending_argsort srt \<longleftrightarrow>
     (\<forall>ns. mset (srt (map IntV ns)) = mset [0..<length ns] \<and>
           sorted_wrt (\<lambda>i j. ns ! j \<le> ns ! i) (srt (map IntV ns)))"

definition take_rows :: "nat list \<Rightarrow> 'a list \<Rightarrow> 'a list" where
  "take_rows ix xs = map (\<lambda>i. xs ! i) (filter (\<lambda>i. i < length xs) ix)"

definition sort_by :: "argsort \<Rightarrow> string \<Rightarrow> frame \<Rightarrow> error + frame" where
  "sort_by srt c f =
     (case position (Scalar c) (columns f) of
        None \<Rightarrow> Inl (KeyError c)
      | Some j \<Rightarrow> Inr (f\<lparr>body := take_rows (srt (column_cells f j)) (body f)\<rparr>))"

text \<open>Two sorts that meet the contract: one keeps ties in place, one reverses them.\<close>

definition stable_argsort :: argsort where
  "stable_argsort cs = sort_key (\<lambda>i. - cell_int (cs ! i)) [0..<length cs]"


text \<open>
  \<^verbatim>\<open>df.apply(lambda x: 100 * x / float(x.sum()))\<close> on the one column of the table, the
  integer column of counts, and the assignment \<^verbatim>\<open>df[c] = values\<close>, which replaces the
  column \<open>c\<close> or appends it. The sum \<^verbatim>\<open>x.sum()\<close> and the products \<^verbatim>\<open>100 * x\<close> are
  integers (a count is at most the number of rows of the sample, so that they stay far inside
  the 64 bits of the column); \<^verbatim>\<open>float\<close> converts the sum to a float, the division
  converts each product to a float and rounds the quotient.
\<close>

definition apply_percent :: "cell list \<Rightarrow> cell list" where
  "apply_percent x =
     (let total = float64 (of_int (sum_list (map cell_int x)))
      in map (\<lambda>v. FloatV (float64 (float64 (of_int (100 * cell_int v)) / total))) x)"

definition set_column :: "string \<Rightarrow> cell list \<Rightarrow> frame \<Rightarrow> frame" where
  "set_column c vs f =
     (case position (Scalar c) (columns f) of
        None \<Rightarrow> f\<lparr>columns := columns f @ [Scalar c],
                  body := map2 (\<lambda>(k, r) v. (k, r @ [v])) (body f) vs\<rparr>
      | Some j \<Rightarrow> f\<lparr>body := map2 (\<lambda>(k, r) v. (k, r[j := v])) (body f) vs\<rparr>)"

section \<open>\<^verbatim>\<open>computeAll\<close>\<close>

text \<open>
  The body of the loop of \<^verbatim>\<open>computeAll\<close> for the level at position \<open>i\<close>. The taxonomy
  hierarchy \<^verbatim>\<open>TAXONOMY_HIERARCHY\<close> is imported from \<^verbatim>\<open>phylodist.constants\<close>; it
  is the parameter \<open>hier\<close>.
\<close>

definition level_histogram :: "argsort \<Rightarrow> string list \<Rightarrow> sample_table \<Rightarrow> nat \<Rightarrow> error + frame" where
  "level_histogram srt hier df i =
     (case groupby_size (take (i + 1) hier) df of
        Inl e \<Rightarrow> Inl e
      | Inr s \<Rightarrow>
          (case sort_by srt ''count'' (DataFrame_of ''count'' s) of
             Inl e \<Rightarrow> Inl e
           | Inr h \<Rightarrow> Inr (set_column ''percent'' (apply_percent (column_cells h 0)) h)))"

fun computeAll_loop ::
  "argsort \<Rightarrow> string list \<Rightarrow> sample_table \<Rightarrow> nat list \<Rightarrow> (string \<rightharpoonup> frame) \<Rightarrow> error + (string \<rightharpoonup> frame)" where
  "computeAll_loop srt hier df [] taxHistDict = Inr taxHistDict"
| "computeAll_loop srt hier df (i # is) taxHistDict =
     (case level_histogram srt hier df i of
        Inl e \<Rightarrow> Inl e
      | Inr h \<Rightarrow> computeAll_loop srt hier df is (taxHistDict(hier ! i \<mapsto> h)))"

definition computeAll :: "argsort \<Rightarrow> string list \<Rightarrow> sample_table \<Rightarrow> error + (string \<rightharpoonup> frame)" where
  "computeAll srt hier df = computeAll_loop srt hier df [0..<length hier] Map.empty"

text \<open>The two columns of a level histogram, read by name.\<close>

definition column :: "string \<Rightarrow> frame \<Rightarrow> cell list" where
  "column c f = (case position (Scalar c) (columns f) of None \<Rightarrow> [] | Some j \<Rightarrow> column_cells f j)"

text \<open>
  A record is classified at the columns \<open>by\<close> when it has a value other than null in each
  of them.
\<close>

definition classified :: "sample_table \<Rightarrow> string list \<Rightarrow> string option list \<Rightarrow> bool" where
  "classified df by r =
     list_all (\<lambda>c. case position c (st_columns df) of
                      None \<Rightarrow> False
                    | Some j \<Rightarrow> j < length r \<and> r ! j \<noteq> None) by"

definition counts :: "frame \<Rightarrow> int list" where
  "counts h = map cell_int (column ''count'' h)"

definition percents :: "frame \<Rightarrow> rat list" where
  "percents h = map cell_num (column ''percent'' h)"

text \<open>The rows of a level histogram over the groups \<open>gs\<close>, for the group keys \<open>keys\<close> of the classified records.\<close>

definition histogram_rows :: "string list list \<Rightarrow> string list list \<Rightarrow> (label \<times> cell list) list" where
  "histogram_rows keys gs =
     map (\<lambda>g. (group_label g,
               [IntV (int (count_list keys g)),
                FloatV (float64 (float64 (of_int (100 * int (count_list keys g))) /
                                 float64 (of_int (int (length keys)))))])) gs"

text \<open>
  The records of a sample that are classified at the level at position \<open>i\<close> and at every
  coarser level, and the accessors used to state the properties of a result of
  \<^verbatim>\<open>computeAll\<close>.
\<close>

definition classified_records :: "string list \<Rightarrow> sample_table \<Rightarrow> nat \<Rightarrow> string option list list" where
  "classified_records hier df i = filter (classified df (take (i + 1) hier)) (st_rows df)"

definition histogram_at :: "error + (string \<rightharpoonup> frame) \<Rightarrow> string \<Rightarrow> frame option" where
  "histogram_at res level = (case res of Inl e \<Rightarrow> None | Inr d \<Rightarrow> d level)"

definition count_total :: "frame \<Rightarrow> int" where
  "count_total h = sum_list (counts h)"

text \<open>
  The sum of the percent column is the exact sum of the numbers in the column.
  \<open>percent_of_count\<close> is the column of the quotients of 100 times the count by the sum of
  the counts, computed in floats; \<open>exact_percent\<close> is the column of the exact quotients.
\<close>

definition percent_total :: "frame \<Rightarrow> rat" where
  "percent_total h = sum_list (percents h)"

definition percent_of_count :: "frame \<Rightarrow> rat list" where
  "percent_of_count h =
     map (\<lambda>c. float64 (float64 (of_int (100 * c)) / float64 (of_int (count_total h)))) (counts h)"

definition exact_percent :: "frame \<Rightarrow> rat list" where
  "exact_percent h = map (\<lambda>c. 100 * of_int c / of_int (count_total h)) (counts h)"

definition non_increasing :: "int list \<Rightarrow> bool" where
  "non_increasing cs = sorted_wrt (\<lambda>a b. b \<le> a) cs"


text \<open>
  Concrete inputs: a hierarchy of two levels; a sample of three records, one of them with no
  phylum; a sample whose only record has no value at all.
\<close>

definition example_hier :: "string list" where
  "example_hier = [''kingdom'', ''phylum'']"

definition example_table :: sample_table where
  "example_table =
     \<lparr>st_columns = [''kingdom'', ''phylum''],
      st_rows = [[Some ''Bacteria'', Some ''Firmicutes''],
                 [Some ''Archaea'', None],
                 [Some ''Bacteria'', Some ''Proteobacteria'']]\<rparr>"





section \<open>The library operations used by the merge functions\<close>

text \<open>
  \<^verbatim>\<open>df.drop(c, 1)\<close> returns a new table without the columns labelled \<open>c\<close> (an error when
  there is none); \<^verbatim>\<open>df.rename(columns={old: new})\<close> relabels the columns \<open>old\<close>.
\<close>

definition drop_column :: "string \<Rightarrow> frame \<Rightarrow> error + frame" where
  "drop_column c f =
     (if Scalar c \<notin> set (columns f) then Inl (ValueError (''labels '' @ c @ '' not contained in axis''))
      else Inr (f\<lparr>columns := filter (\<lambda>l. l \<noteq> Scalar c) (columns f),
                  body := map (\<lambda>(k, r). (k, map snd (filter (\<lambda>(l, v). l \<noteq> Scalar c) (zip (columns f) r))))
                              (body f),
                  attr_names := None\<rparr>))"

definition rename_column :: "string \<Rightarrow> string \<Rightarrow> frame \<Rightarrow> frame" where
  "rename_column old new f =
     f\<lparr>columns := map (\<lambda>l. if l = Scalar old then Scalar new else l) (columns f)\<rparr>"

text \<open>
  \<^verbatim>\<open>pd.merge(left, right, how=..., left_index=True, right_index=True)\<close>: a join on the row
  labels. Every row of one side is paired with every row of the other side that has the same
  label, and with a row of nulls when there is none. The outer join has the union of the
  labels of both sides. The library takes the labels of the left side as they stand when the
  right side has no row or has the same labels in the same order, and those of the right side
  when the left side has no row; in every other case it sorts the union (Python orders a
  string before a tuple, strings and tuples among themselves lexicographically). The left
  join keeps the rows of the left side in their order. A column label that occurs on both
  sides gets the suffix \<^verbatim>\<open>_x\<close> on the left and \<^verbatim>\<open>_y\<close> on the right.
\<close>

definition label_key :: "label \<Rightarrow> bool \<times> string list" where
  "label_key l = (case l of Scalar s \<Rightarrow> (False, [s]) | Tuple xs \<Rightarrow> (True, xs))"

fun tuple_items :: "string list \<Rightarrow> string" where
  "tuple_items [] = []"
| "tuple_items [x] = [CHR 0x27] @ x @ [CHR 0x27]"
| "tuple_items (x # y # ys) = [CHR 0x27] @ x @ [CHR 0x27] @ '', '' @ tuple_items (y # ys)"

definition label_str :: "label \<Rightarrow> string" where
  "label_str l =
     (case l of
        Scalar s \<Rightarrow> s
      | Tuple xs \<Rightarrow> ''('' @ tuple_items xs @ (if length xs = 1 then '','' else []) @ '')'')"

definition add_suffix :: "label list \<Rightarrow> string \<Rightarrow> label \<Rightarrow> label" where
  "add_suffix other sfx l = (if l \<in> set other then Scalar (label_str l @ sfx) else l)"

definition null_row :: "frame \<Rightarrow> cell list" where
  "null_row f = replicate (length (columns f)) Null"

definition rows_or_null :: "frame \<Rightarrow> label \<Rightarrow> cell list list" where
  "rows_or_null f k =
     (case map snd (filter (\<lambda>(k', r). k' = k) (body f)) of [] \<Rightarrow> [null_row f] | rs \<Rightarrow> rs)"

definition join_rows :: "frame \<Rightarrow> frame \<Rightarrow> label \<Rightarrow> (label \<times> cell list) list" where
  "join_rows l r k = concat (map (\<lambda>a. map (\<lambda>b. (k, a @ b)) (rows_or_null r k)) (rows_or_null l k))"

definition merged_names :: "frame \<Rightarrow> frame \<Rightarrow> string option list" where
  "merged_names l r =
     (if index_names l = index_names r then index_names l else map (\<lambda>n. None) (index_names l))"

definition merged_columns :: "frame \<Rightarrow> frame \<Rightarrow> label list" where
  "merged_columns l r =
     map (add_suffix (columns r) ''_x'') (columns l) @ map (add_suffix (columns l) ''_y'') (columns r)"

definition outer_labels :: "label list \<Rightarrow> label list \<Rightarrow> label list" where
  "outer_labels ls rs =
     (if rs = [] \<or> ls = rs then remdups ls
      else if ls = [] then remdups rs
      else sort_key label_key (remdups (ls @ rs)))"

definition merge_outer :: "frame \<Rightarrow> frame \<Rightarrow> frame" where
  "merge_outer l r =
     \<lparr>columns = merged_columns l r,
      index_names = merged_names l r,
      body = concat (map (join_rows l r) (outer_labels (index l) (index r))),
      attr_names = None\<rparr>"

definition merge_left :: "frame \<Rightarrow> frame \<Rightarrow> frame" where
  "merge_left l r =
     \<lparr>columns = merged_columns l r,
      index_names = merged_names l r,
      body = concat (map (\<lambda>(k, a). map (\<lambda>b. (k, a @ b)) (rows_or_null r k)) (body l)),
      attr_names = None\<rparr>"

text \<open>
  \<^verbatim>\<open>df.T\<close>: the transposed table, a new object. The cells of a column have one type, and
  a column of the transposed table holds cells from every column of the table: the library
  gives them the common type of the columns. When the table has no string and not only
  integers (it has a float or a null, which is a float), that type is float, and the
  integers are converted.
\<close>

definition is_string :: "cell \<Rightarrow> bool" where
  "is_string c = (case c of StrV s \<Rightarrow> True | _ \<Rightarrow> False)"

definition is_integer :: "cell \<Rightarrow> bool" where
  "is_integer c = (case c of IntV n \<Rightarrow> True | _ \<Rightarrow> False)"

definition to_float :: "cell \<Rightarrow> cell" where
  "to_float c = (case c of IntV n \<Rightarrow> FloatV (float64 (of_int n)) | _ \<Rightarrow> c)"

definition common_type :: "frame \<Rightarrow> cell \<Rightarrow> cell" where
  "common_type f =
     (let cells = concat (map snd (body f))
      in if list_ex is_string cells \<or> list_all is_integer cells then (\<lambda>c. c) else to_float)"

definition transpose_frame :: "frame \<Rightarrow> frame" where
  "transpose_frame f =
     \<lparr>columns = index f,
      index_names = [None],
      body = map (\<lambda>j. (columns f ! j, map (common_type f) (column_cells f j)))
                 [0..<length (columns f)],
      attr_names = None\<rparr>"

text \<open>
  \<^verbatim>\<open>pd.MultiIndex.from_tuples(index)\<close>: the number of levels is the length of the first
  tuple; every entry has to be a tuple with at least that many components. The levels of
  the new index have no names.
\<close>

fun from_tuples_entries :: "nat \<Rightarrow> label list \<Rightarrow> error + label list" where
  "from_tuples_entries n [] = Inr []"
| "from_tuples_entries n (Scalar s # ls) = Inl (TypeError ''Expected tuple, got str'')"
| "from_tuples_entries n (Tuple xs # ls) =
     (if length xs < n then Inl (IndexError ''tuple index out of range'')
      else case from_tuples_entries n ls of
             Inl e \<Rightarrow> Inl e
           | Inr ts \<Rightarrow> Inr (Tuple (take n xs) # ts))"

definition from_tuples :: "label list \<Rightarrow> error + label list \<times> string option list" where
  "from_tuples ls =
     (case ls of
        [] \<Rightarrow> Inl (TypeError ''Cannot infer number of levels from empty list'')
      | Scalar s # _ \<Rightarrow> Inl (TypeError ''Expected tuple, got str'')
      | Tuple xs # _ \<Rightarrow>
          (case from_tuples_entries (length xs) ls of
             Inl e \<Rightarrow> Inl e
           | Inr ts \<Rightarrow> Inr (ts, replicate (length xs) None)))"

section \<open>The merge functions\<close>

text \<open>
  Python values that are not dictionaries, for the arguments that the functions test with
  \<^verbatim>\<open>isinstance\<close>.
\<close>

datatype pyvalue = PyNone | PyInt int | PyStr string | PyList "pyvalue list"

text \<open>
  The argument \<^verbatim>\<open>sampleDictTaxHistDict\<close>: a dictionary from sample identifiers to the
  result of \<^verbatim>\<open>computeAll\<close> for the sample, given by its entries in iteration order, or a
  value of another type. The type parameter is the representation of a table: the table
  itself where only its value counts, its address where the store is modelled.
\<close>

datatype 'a collection = Dict "(string \<times> (string \<rightharpoonup> 'a)) list" | NotDict pyvalue

datatype 'a metadata = MetaNone | MetaFrame 'a | MetaOther pyvalue

definition validateSampleDictTaxHistDict :: "'a collection \<Rightarrow> error + unit" where
  "validateSampleDictTaxHistDict sampleDictTaxHistDict =
     (case sampleDictTaxHistDict of
        NotDict v \<Rightarrow> Inl (TypeError ''argument sampleDictTaxHistDict should be a dict'')
      | Dict entries \<Rightarrow>
          (if length entries < 1
           then Inl (ValueError ''argument sampleDictTaxHistDict must have at least one entry'')
           else Inr ()))"

text \<open>
  Lines 153 to 166: the table of the sample at the level, without its column
  \<^verbatim>\<open>count\<close> and with the column \<^verbatim>\<open>percent\<close> renamed to the sample.
\<close>

definition sample_column :: "string \<Rightarrow> (string \<rightharpoonup> frame) \<Rightarrow> string \<Rightarrow> error + frame" where
  "sample_column sample taxHistDict taxonomyLevel =
     (case taxHistDict taxonomyLevel of
        None \<Rightarrow> Inl (KeyError taxonomyLevel)
      | Some h \<Rightarrow>
          (case drop_column ''count'' h of
             Inl e \<Rightarrow> Inl e
           | Inr tmpDF \<Rightarrow> Inr (rename_column ''percent'' sample tmpDF)))"

text \<open>
  The loop of lines 150 to 171. The accumulator is \<open>None\<close> while \<^verbatim>\<open>first\<close> is true, and
  the variable \<^verbatim>\<open>mergedPhylodistHist\<close> afterwards.
\<close>

fun merge_loop :: "string \<Rightarrow> (string \<times> (string \<rightharpoonup> frame)) list \<Rightarrow> frame option \<Rightarrow> error + frame" where
  "merge_loop taxonomyLevel [] None = Inl (UnboundLocalError ''mergedPhylodistHist'')"
| "merge_loop taxonomyLevel [] (Some mergedPhylodistHist) = Inr mergedPhylodistHist"
| "merge_loop taxonomyLevel ((sample, taxHistDict) # rest) acc =
     (case sample_column sample taxHistDict taxonomyLevel of
        Inl e \<Rightarrow> Inl e
      | Inr tmpDF \<Rightarrow>
          (case acc of
             None \<Rightarrow> merge_loop taxonomyLevel rest (Some tmpDF)
           | Some mergedPhylodistHist \<Rightarrow>
               merge_loop taxonomyLevel rest (Some (merge_outer mergedPhylodistHist tmpDF))))"

text \<open>
  \<^verbatim>\<open>mergeAcrossSamples\<close>. The progress messages on the standard output (the flag
  \<^verbatim>\<open>verbose\<close>) have no part in the result and are left out.
\<close>

definition mergeAcrossSamples :: "string list \<Rightarrow> frame collection \<Rightarrow> string \<Rightarrow> error + frame" where
  "mergeAcrossSamples hier sampleDictTaxHistDict taxonomyLevel =
     (if taxonomyLevel \<notin> set hier
      then Inl (ValueError (''taxonomy level '' @ taxonomyLevel @ '' is not recognized''))
      else case validateSampleDictTaxHistDict sampleDictTaxHistDict of
        Inl e \<Rightarrow> Inl e
      | Inr u \<Rightarrow>
          (case sampleDictTaxHistDict of
             Dict entries \<Rightarrow> merge_loop taxonomyLevel entries None
           | NotDict v \<Rightarrow> Inl (TypeError ''argument sampleDictTaxHistDict should be a dict'')))"

text \<open>
  Lines 106 to 120, the body of the loop of \<^verbatim>\<open>mergeAcrossSamplesTaxLevels\<close> for one level.
  With \<^verbatim>\<open>metadata\<close> equal to \<^verbatim>\<open>None\<close> the call of \<^verbatim>\<open>pd.merge\<close> fails. Line 117
  assigns the attribute \<^verbatim>\<open>names\<close> of the table, not the names of its index.
\<close>

definition merge_metadata :: "frame \<Rightarrow> frame metadata \<Rightarrow> error + frame" where
  "merge_metadata tmpDF md =
     (case md of
        MetaFrame m \<Rightarrow> Inr (merge_left tmpDF m)
      | MetaNone \<Rightarrow> Inl (MergeOperandError ''NoneType'')
      | MetaOther v \<Rightarrow> Inl (MergeOperandError ''object''))"

definition label_index :: "string list \<Rightarrow> string \<Rightarrow> frame \<Rightarrow> error + frame" where
  "label_index hier taxonomyLevel tmpDF =
     (case index tmpDF of
        [] \<Rightarrow> Inl (IndexError ''index 0 is out of bounds for axis 0 with size 0'')
      | Tuple row0Tuple # rest \<Rightarrow>
          (case from_tuples (index tmpDF) of
             Inl e \<Rightarrow> Inl e
           | Inr (ts, ns) \<Rightarrow>
               Inr (tmpDF\<lparr>body := map2 (\<lambda>t (k, r). (t, r)) ts (body tmpDF),
                          index_names := ns,
                          attr_names := Some (take (length row0Tuple) hier)\<rparr>))
      | Scalar s # rest \<Rightarrow> Inr (tmpDF\<lparr>index_names := [Some taxonomyLevel]\<rparr>))"

definition merge_level ::
  "string list \<Rightarrow> frame collection \<Rightarrow> frame metadata \<Rightarrow> string \<Rightarrow> error + frame" where
  "merge_level hier sampleDictTaxHistDict md taxonomyLevel =
     (case mergeAcrossSamples hier sampleDictTaxHistDict taxonomyLevel of
        Inl e \<Rightarrow> Inl e
      | Inr merged \<Rightarrow>
          (case merge_metadata ((transpose_frame merged)\<lparr>index_names := [Some ''sample'']\<rparr>) md of
             Inl e \<Rightarrow> Inl e
           | Inr tmpDF \<Rightarrow> label_index hier taxonomyLevel (transpose_frame tmpDF)))"

fun taxLevels_loop ::
  "string list \<Rightarrow> frame collection \<Rightarrow> frame metadata \<Rightarrow> string list \<Rightarrow> (string \<rightharpoonup> frame) \<Rightarrow>
   error + (string \<rightharpoonup> frame)" where
  "taxLevels_loop hier c md [] taxonomyDictTaxHist = Inr taxonomyDictTaxHist"
| "taxLevels_loop hier c md (taxonomyLevel # rest) taxonomyDictTaxHist =
     (case merge_level hier c md taxonomyLevel of
        Inl e \<Rightarrow> Inl e
      | Inr tmpDF \<Rightarrow> taxLevels_loop hier c md rest (taxonomyDictTaxHist(taxonomyLevel \<mapsto> tmpDF)))"

definition mergeAcrossSamplesTaxLevels ::
  "string list \<Rightarrow> frame collection \<Rightarrow> frame metadata \<Rightarrow> error + (string \<rightharpoonup> frame)" where
  "mergeAcrossSamplesTaxLevels hier sampleDictTaxHistDict md =
     (case validateSampleDictTaxHistDict sampleDictTaxHistDict of
        Inl e \<Rightarrow> Inl e
      | Inr u \<Rightarrow>
          (case md of
             MetaOther v \<Rightarrow> Inl (TypeError ''metadata argument must be None or a DataFrame'')
           | _ \<Rightarrow> taxLevels_loop hier sampleDictTaxHistDict md hier Map.empty))"

text \<open>
  Concrete inputs for the merge functions: two samples whose histograms at the level
  \<^verbatim>\<open>kingdom\<close> have the categories A, B (60 and 40 percent) and A, C (70 and 30 percent).
\<close>

definition example_hist1 :: frame where
  "example_hist1 =
     \<lparr>columns = [Scalar ''count'', Scalar ''percent''], index_names = [Some ''kingdom''],
      body = [(Scalar ''A'', [IntV 3, FloatV 60]), (Scalar ''B'', [IntV 2, FloatV 40])],
      attr_names = None\<rparr>"

definition example_hist2 :: frame where
  "example_hist2 =
     \<lparr>columns = [Scalar ''count'', Scalar ''percent''], index_names = [Some ''kingdom''],
      body = [(Scalar ''A'', [IntV 7, FloatV 70]), (Scalar ''C'', [IntV 3, FloatV 30])],
      attr_names = None\<rparr>"

definition example_entries :: "(string \<times> (string \<rightharpoonup> frame)) list" where
  "example_entries =
     [(''s1'', [''kingdom'' \<mapsto> example_hist1]), (''s2'', [''kingdom'' \<mapsto> example_hist2])]"

text \<open>
  A collection with one sample, whose histograms are computed by \<^verbatim>\<open>computeAll\<close> from the
  example table, and a metadata table that has a row for the sample and no column.
\<close>

definition example_collection :: "frame collection" where
  "example_collection =
     (case computeAll stable_argsort example_hier example_table of
        Inr taxHistDict \<Rightarrow> Dict [(''s1'', taxHistDict)]
      | Inl e \<Rightarrow> Dict [])"

definition example_metadata :: "frame metadata" where
  "example_metadata =
     MetaFrame \<lparr>columns = [], index_names = [None], body = [(Scalar ''s1'', [])], attr_names = None\<rparr>"

text \<open>
  Reading a merged table: the cell of the row labelled \<open>k\<close> in the column labelled \<open>c\<close>. The
  percent of a sample for a prefix is null when the histogram of the sample has no row for
  the prefix.
\<close>

definition cell :: "frame \<Rightarrow> label \<Rightarrow> label \<Rightarrow> cell" where
  "cell f k c =
     (case map_of (body f) k of
        None \<Rightarrow> Null
      | Some r \<Rightarrow> (case position c (columns f) of None \<Rightarrow> Null | Some j \<Rightarrow> cell_at r j))"

definition sample_keys :: "(string \<rightharpoonup> frame) \<Rightarrow> string \<Rightarrow> label list" where
  "sample_keys taxHistDict level = (case taxHistDict level of None \<Rightarrow> [] | Some h \<Rightarrow> index h)"

definition sample_percent :: "(string \<rightharpoonup> frame) \<Rightarrow> string \<Rightarrow> label \<Rightarrow> cell" where
  "sample_percent taxHistDict level k =
     (case taxHistDict level of None \<Rightarrow> Null | Some h \<Rightarrow> cell h k (Scalar ''percent''))"

text \<open>
  A level histogram as \<^verbatim>\<open>computeAll\<close> makes it: the columns \<^verbatim>\<open>count\<close> and
  \<^verbatim>\<open>percent\<close>, two cells in every row, no row label twice. A valid collection for a level:
  at least one sample, no sample identifier twice (it is a dictionary), and every sample has
  such a histogram at the level.
\<close>

definition level_histogram_ok :: "frame \<Rightarrow> bool" where
  "level_histogram_ok h \<longleftrightarrow>
     columns h = [Scalar ''count'', Scalar ''percent''] \<and>
     list_all (\<lambda>(k, r). length r = 2) (body h) \<and> distinct (index h)"

definition valid_collection :: "string \<Rightarrow> (string \<times> (string \<rightharpoonup> frame)) list \<Rightarrow> bool" where
  "valid_collection level entries \<longleftrightarrow>
     entries \<noteq> [] \<and> distinct (map fst entries) \<and>
     list_all (\<lambda>(s, d). case d level of None \<Rightarrow> False | Some h \<Rightarrow> level_histogram_ok h) entries"

definition sample_names :: "(string \<rightharpoonup> frame) \<Rightarrow> string \<Rightarrow> string option list" where
  "sample_names taxHistDict level = (case taxHistDict level of None \<Rightarrow> [] | Some h \<Rightarrow> index_names h)"

definition uniform_names :: "string \<Rightarrow> (string \<times> (string \<rightharpoonup> frame)) list \<Rightarrow> bool" where
  "uniform_names level entries \<longleftrightarrow>
     list_all (\<lambda>(s, d). sample_names d level = sample_names (snd (hd entries)) level) entries"

text \<open>The rows of the merged table of the samples \<open>entries\<close> over the row labels \<open>keys\<close>.\<close>

definition merged_body ::
  "string \<Rightarrow> (string \<times> (string \<rightharpoonup> frame)) list \<Rightarrow> label list \<Rightarrow> (label \<times> cell list) list" where
  "merged_body level entries keys =
     map (\<lambda>k. (k, map (\<lambda>(s, d). sample_percent d level k) entries)) keys"

definition all_keys :: "string \<Rightarrow> (string \<times> (string \<rightharpoonup> frame)) list \<Rightarrow> label set" where
  "all_keys level entries = (\<Union>(s, d)\<in>set entries. set (sample_keys d level))"

definition merged_form ::
  "string \<Rightarrow> (string \<times> (string \<rightharpoonup> frame)) list \<Rightarrow> frame \<Rightarrow> bool" where
  "merged_form level entries f \<longleftrightarrow>
     columns f = map (\<lambda>(s, d). Scalar s) entries \<and>
     body f = merged_body level entries (index f) \<and>
     distinct (index f) \<and> set (index f) = all_keys level entries \<and> attr_names f = None"

text \<open>
  The row labels of the table that the loop of \<^verbatim>\<open>mergeAcrossSamples\<close> builds from
  histograms with the row labels \<open>ixs\<close>: when all the histograms that have rows have the same
  labels in the same order, these labels as they stand, and the sorted union otherwise.
\<close>

definition merged_labels :: "label list list \<Rightarrow> label list" where
  "merged_labels ixs =
     (let ne = filter (\<lambda>ix. ix \<noteq> []) ixs in
      if ne = [] then []
      else if list_all (\<lambda>ix. ix = hd ne) ne then hd ne
      else sort_key label_key (remdups (concat ixs)))"

text \<open>The same table with its columns in another order.\<close>

definition reorder_columns :: "label list \<Rightarrow> frame \<Rightarrow> frame" where
  "reorder_columns cs f =
     f\<lparr>columns := cs, body := map (\<lambda>(k, r). (k, map (\<lambda>c. cell f k c) cs)) (body f)\<rparr>"

section \<open>The same functions over a store of tables\<close>

text \<open>
  Most pandas operations return a new table, but three statements of the program change a
  table in place: the assignment of the column \<^verbatim>\<open>percent\<close> (line 33), the renaming with
  \<^verbatim>\<open>inplace=True\<close> (line 163) and the assignments to the index and to the attribute
  \<^verbatim>\<open>names\<close> (lines 109 to 119). To see which tables they reach, the tables live in a
  store: a table is referred to by its address, an operation that returns a new table
  allocates it, and an operation in place updates the store at the address. The sample
  tables, which the program only reads, are kept apart from the other tables. The names of
  an index are part of the table that carries the index.
\<close>

type_synonym ref = nat

record store =
  tables :: "sample_table list"
  frames :: "frame list"

definition alloc :: "frame \<Rightarrow> store \<Rightarrow> ref \<times> store" where
  "alloc f \<sigma> = (length (frames \<sigma>), \<sigma>\<lparr>frames := frames \<sigma> @ [f]\<rparr>)"

definition update :: "ref \<Rightarrow> (frame \<Rightarrow> frame) \<Rightarrow> store \<Rightarrow> store" where
  "update r g \<sigma> = \<sigma>\<lparr>frames := (frames \<sigma>)[r := g (frames \<sigma> ! r)]\<rparr>"

text \<open>
  The result of \<^verbatim>\<open>df.apply(lambda x: 100 * x / float(x.sum()))\<close> for a table of one column:
  a new table with the same index and column.
\<close>

definition apply_frame :: "frame \<Rightarrow> frame" where
  "apply_frame f =
     f\<lparr>body := map2 (\<lambda>(k, r) v. (k, [v])) (body f) (apply_percent (column_cells f 0)),
       attr_names := None\<rparr>"

definition level_histogram_h ::
  "argsort \<Rightarrow> string list \<Rightarrow> ref \<Rightarrow> nat \<Rightarrow> store \<Rightarrow> store \<times> (error + ref)" where
  "level_histogram_h srt hier df i \<sigma> =
     (case groupby_size (take (i + 1) hier) (tables \<sigma> ! df) of
        Inl e \<Rightarrow> (\<sigma>, Inl e)
      | Inr s \<Rightarrow>
          (case alloc (DataFrame_of ''count'' s) \<sigma> of
             (r0, \<sigma>0) \<Rightarrow>
               (case sort_by srt ''count'' (frames \<sigma>0 ! r0) of
                  Inl e \<Rightarrow> (\<sigma>0, Inl e)
                | Inr h \<Rightarrow>
                    (case alloc h \<sigma>0 of
                       (r1, \<sigma>1) \<Rightarrow>
                         (case alloc (apply_frame (frames \<sigma>1 ! r1)) \<sigma>1 of
                            (r2, \<sigma>2) \<Rightarrow>
                              (update r1 (set_column ''percent'' (column_cells (frames \<sigma>2 ! r2) 0)) \<sigma>2,
                               Inr r1))))))"

fun computeAll_loop_h ::
  "argsort \<Rightarrow> string list \<Rightarrow> ref \<Rightarrow> nat list \<Rightarrow> (string \<rightharpoonup> ref) \<Rightarrow> store \<Rightarrow>
   store \<times> (error + (string \<rightharpoonup> ref))" where
  "computeAll_loop_h srt hier df [] taxHistDict \<sigma> = (\<sigma>, Inr taxHistDict)"
| "computeAll_loop_h srt hier df (i # is) taxHistDict \<sigma> =
     (case level_histogram_h srt hier df i \<sigma> of
        (\<sigma>', Inl e) \<Rightarrow> (\<sigma>', Inl e)
      | (\<sigma>', Inr r) \<Rightarrow> computeAll_loop_h srt hier df is (taxHistDict(hier ! i \<mapsto> r)) \<sigma>')"

definition computeAll_h ::
  "argsort \<Rightarrow> string list \<Rightarrow> ref \<Rightarrow> store \<Rightarrow> store \<times> (error + (string \<rightharpoonup> ref))" where
  "computeAll_h srt hier df \<sigma> = computeAll_loop_h srt hier df [0..<length hier] Map.empty \<sigma>"

text \<open>
  Lines 153 and 160: \<^verbatim>\<open>tmpDF = sampleDictTaxHistDict[sample][taxonomyLevel].drop('count', 1)\<close>,
  a new table.
\<close>

definition sample_column_h ::
  "(string \<rightharpoonup> ref) \<Rightarrow> string \<Rightarrow> store \<Rightarrow> store \<times> (error + ref)" where
  "sample_column_h taxHistDict taxonomyLevel \<sigma> =
     (case taxHistDict taxonomyLevel of
        None \<Rightarrow> (\<sigma>, Inl (KeyError taxonomyLevel))
      | Some h \<Rightarrow>
          (case drop_column ''count'' (frames \<sigma> ! h) of
             Inl e \<Rightarrow> (\<sigma>, Inl e)
           | Inr t \<Rightarrow> (case alloc t \<sigma> of (tmpDF, \<sigma>') \<Rightarrow> (\<sigma>', Inr tmpDF))))"

text \<open>
  The loop of lines 150 to 171: for the first sample the renamed table is a new one (line
  156); for the others the table \<^verbatim>\<open>tmpDF\<close> is renamed in place (line 163) and merged into
  a new table (line 167).
\<close>

fun merge_loop_h ::
  "string \<Rightarrow> (string \<times> (string \<rightharpoonup> ref)) list \<Rightarrow> ref option \<Rightarrow> store \<Rightarrow> store \<times> (error + ref)" where
  "merge_loop_h taxonomyLevel [] None \<sigma> = (\<sigma>, Inl (UnboundLocalError ''mergedPhylodistHist''))"
| "merge_loop_h taxonomyLevel [] (Some mergedPhylodistHist) \<sigma> = (\<sigma>, Inr mergedPhylodistHist)"
| "merge_loop_h taxonomyLevel ((sample, taxHistDict) # rest) acc \<sigma> =
     (case sample_column_h taxHistDict taxonomyLevel \<sigma> of
        (\<sigma>1, Inl e) \<Rightarrow> (\<sigma>1, Inl e)
      | (\<sigma>1, Inr tmpDF) \<Rightarrow>
          (case acc of
             None \<Rightarrow>
               (case alloc (rename_column ''percent'' sample (frames \<sigma>1 ! tmpDF)) \<sigma>1 of
                  (m, \<sigma>2) \<Rightarrow> merge_loop_h taxonomyLevel rest (Some m) \<sigma>2)
           | Some mergedPhylodistHist \<Rightarrow>
               (case alloc (merge_outer (frames (update tmpDF (rename_column ''percent'' sample) \<sigma>1)
                                           ! mergedPhylodistHist)
                                        (frames (update tmpDF (rename_column ''percent'' sample) \<sigma>1)
                                           ! tmpDF))
                           (update tmpDF (rename_column ''percent'' sample) \<sigma>1) of
                  (m, \<sigma>3) \<Rightarrow> merge_loop_h taxonomyLevel rest (Some m) \<sigma>3)))"

definition mergeAcrossSamples_h ::
  "string list \<Rightarrow> ref collection \<Rightarrow> string \<Rightarrow> store \<Rightarrow> store \<times> (error + ref)" where
  "mergeAcrossSamples_h hier sampleDictTaxHistDict taxonomyLevel \<sigma> =
     (if taxonomyLevel \<notin> set hier
      then (\<sigma>, Inl (ValueError (''taxonomy level '' @ taxonomyLevel @ '' is not recognized'')))
      else case validateSampleDictTaxHistDict sampleDictTaxHistDict of
        Inl e \<Rightarrow> (\<sigma>, Inl e)
      | Inr u \<Rightarrow>
          (case sampleDictTaxHistDict of
             Dict entries \<Rightarrow> merge_loop_h taxonomyLevel entries None \<sigma>
           | NotDict v \<Rightarrow> (\<sigma>, Inl (TypeError ''argument sampleDictTaxHistDict should be a dict''))))"

text \<open>
  Lines 106 to 120 for one level: the two transpositions and the join make new tables; the
  assignments of lines 109 and 116 to 119 change the transposed tables in place.
\<close>

definition merge_level_h ::
  "string list \<Rightarrow> ref collection \<Rightarrow> ref metadata \<Rightarrow> string \<Rightarrow> store \<Rightarrow> store \<times> (error + ref)" where
  "merge_level_h hier c md taxonomyLevel \<sigma> =
     (case mergeAcrossSamples_h hier c taxonomyLevel \<sigma> of
        (\<sigma>1, Inl e) \<Rightarrow> (\<sigma>1, Inl e)
      | (\<sigma>1, Inr merged) \<Rightarrow>
          (case alloc (transpose_frame (frames \<sigma>1 ! merged)) \<sigma>1 of
             (t, \<sigma>2) \<Rightarrow>
               (case md of
                  MetaNone \<Rightarrow>
                    (update t (\<lambda>f. f\<lparr>index_names := [Some ''sample'']\<rparr>) \<sigma>2,
                     Inl (MergeOperandError ''NoneType''))
                | MetaOther v \<Rightarrow>
                    (update t (\<lambda>f. f\<lparr>index_names := [Some ''sample'']\<rparr>) \<sigma>2,
                     Inl (MergeOperandError ''object''))
                | MetaFrame m \<Rightarrow>
                    (case alloc (merge_left
                                   (frames (update t (\<lambda>f. f\<lparr>index_names := [Some ''sample'']\<rparr>) \<sigma>2) ! t)
                                   (frames (update t (\<lambda>f. f\<lparr>index_names := [Some ''sample'']\<rparr>) \<sigma>2) ! m))
                                (update t (\<lambda>f. f\<lparr>index_names := [Some ''sample'']\<rparr>) \<sigma>2) of
                       (j, \<sigma>4) \<Rightarrow>
                         (case alloc (transpose_frame (frames \<sigma>4 ! j)) \<sigma>4 of
                            (tmpDF, \<sigma>5) \<Rightarrow>
                              (case label_index hier taxonomyLevel (frames \<sigma>5 ! tmpDF) of
                                 Inl e \<Rightarrow> (\<sigma>5, Inl e)
                               | Inr f \<Rightarrow> (update tmpDF (\<lambda>old. f) \<sigma>5, Inr tmpDF)))))))"

fun taxLevels_loop_h ::
  "string list \<Rightarrow> ref collection \<Rightarrow> ref metadata \<Rightarrow> string list \<Rightarrow> (string \<rightharpoonup> ref) \<Rightarrow> store \<Rightarrow>
   store \<times> (error + (string \<rightharpoonup> ref))" where
  "taxLevels_loop_h hier c md [] taxonomyDictTaxHist \<sigma> = (\<sigma>, Inr taxonomyDictTaxHist)"
| "taxLevels_loop_h hier c md (taxonomyLevel # rest) taxonomyDictTaxHist \<sigma> =
     (case merge_level_h hier c md taxonomyLevel \<sigma> of
        (\<sigma>', Inl e) \<Rightarrow> (\<sigma>', Inl e)
      | (\<sigma>', Inr tmpDF) \<Rightarrow>
          taxLevels_loop_h hier c md rest (taxonomyDictTaxHist(taxonomyLevel \<mapsto> tmpDF)) \<sigma>')"

definition mergeAcrossSamplesTaxLevels_h ::
  "string list \<Rightarrow> ref collection \<Rightarrow> ref metadata \<Rightarrow> store \<Rightarrow> store \<times> (error + (string \<rightharpoonup> ref))" where
  "mergeAcrossSamplesTaxLevels_h hier sampleDictTaxHistDict md \<sigma> =
     (case validateSampleDictTaxHistDict sampleDictTaxHistDict of
        Inl e \<Rightarrow> (\<sigma>, Inl e)
      | Inr u \<Rightarrow>
          (case md of
             MetaOther v \<Rightarrow> (\<sigma>, Inl (TypeError ''metadata argument must be None or a DataFrame''))
           | _ \<Rightarrow> taxLevels_loop_h hier sampleDictTaxHistDict md hier Map.empty \<sigma>))"

text \<open>
  The tables of the store \<open>\<sigma>\<close> are unchanged in the store \<open>\<sigma>'\<close>: the sample tables are the
  same, and every table that \<open>\<sigma>\<close> holds is held by \<open>\<sigma>'\<close> at the same address with the same
  content (new tables may have been added behind them).
\<close>

definition unchanged :: "store \<Rightarrow> store \<Rightarrow> bool" where
  "unchanged \<sigma> \<sigma>' \<longleftrightarrow>
     tables \<sigma>' = tables \<sigma> \<and> take (length (frames \<sigma>)) (frames \<sigma>') = frames \<sigma>"

text \<open>The tables at the addresses below \<open>n\<close> are kept from \<open>\<sigma>\<close> to \<open>\<sigma>'\<close>, and no table is removed.\<close>

definition keeps :: "nat \<Rightarrow> store \<Rightarrow> store \<Rightarrow> bool" where
  "keeps n \<sigma> \<sigma>' \<longleftrightarrow>
     tables \<sigma>' = tables \<sigma> \<and> length (frames \<sigma>) \<le> length (frames \<sigma>') \<and>
     take n (frames \<sigma>') = take n (frames \<sigma>)"

text \<open>
  The collection of tables that a collection of addresses stands for in a store, and the
  result of a call read from the store it leaves.
\<close>

definition deref_dict :: "store \<Rightarrow> (string \<rightharpoonup> ref) \<Rightarrow> (string \<rightharpoonup> frame)" where
  "deref_dict \<sigma> d = (\<lambda>k. map_option (\<lambda>r. frames \<sigma> ! r) (d k))"

definition deref_entries ::
  "store \<Rightarrow> (string \<times> (string \<rightharpoonup> ref)) list \<Rightarrow> (string \<times> (string \<rightharpoonup> frame)) list" where
  "deref_entries \<sigma> entries = map (\<lambda>(s, d). (s, deref_dict \<sigma> d)) entries"

definition deref :: "store \<Rightarrow> ref collection \<Rightarrow> frame collection" where
  "deref \<sigma> c = (case c of Dict entries \<Rightarrow> Dict (deref_entries \<sigma> entries) | NotDict v \<Rightarrow> NotDict v)"

definition deref_metadata :: "store \<Rightarrow> ref metadata \<Rightarrow> frame metadata" where
  "deref_metadata \<sigma> md =
     (case md of MetaNone \<Rightarrow> MetaNone | MetaFrame r \<Rightarrow> MetaFrame (frames \<sigma> ! r) | MetaOther v \<Rightarrow> MetaOther v)"

definition read_result :: "store \<times> (error + ref) \<Rightarrow> error + frame" where
  "read_result x = (case x of (\<sigma>, Inl e) \<Rightarrow> Inl e | (\<sigma>, Inr r) \<Rightarrow> Inr (frames \<sigma> ! r))"

definition read_dict :: "store \<times> (error + (string \<rightharpoonup> ref)) \<Rightarrow> error + (string \<rightharpoonup> frame)" where
  "read_dict x = (case x of (\<sigma>, Inl e) \<Rightarrow> Inl e | (\<sigma>, Inr d) \<Rightarrow> Inr (deref_dict \<sigma> d))"

text \<open>Every address of the collection is an address of the store.\<close>

definition entries_in_store :: "store \<Rightarrow> (string \<times> (string \<rightharpoonup> ref)) list \<Rightarrow> bool" where
  "entries_in_store \<sigma> entries \<longleftrightarrow> (\<forall>(s, d)\<in>set entries. \<forall>r\<in>ran d. r < length (frames \<sigma>))"

definition in_store :: "store \<Rightarrow> ref collection \<Rightarrow> bool" where
  "in_store \<sigma> c \<longleftrightarrow> (case c of Dict entries \<Rightarrow> entries_in_store \<sigma> entries | NotDict v \<Rightarrow> True)"

text \<open>A store with the example table and the two example histograms, and the collection over it.\<close>

definition example_store :: store where
  "example_store = \<lparr>tables = [example_table], frames = [example_hist1, example_hist2]\<rparr>"

definition example_refs :: "ref collection" where
  "example_refs = Dict [(''s1'', [''kingdom'' \<mapsto> 0]), (''s2'', [''kingdom'' \<mapsto> 1])]"

section \<open>Facts about the rounding of floats\<close>

lemma round_half_even_error: "\<bar>of_int (round_half_even y) - y\<bar> \<le> 1 / 2"
proof -
  define n where "n = \<lfloor>y\<rfloor>"
  define r where "r = y - of_int n"
  have r: "0 \<le> r" "r < 1" unfolding r_def n_def by linarith+
  have y: "y = of_int n + r" by (simp add: r_def)
  have "round_half_even y = n \<and> r \<le> 1 / 2 \<or> round_half_even y = n + 1 \<and> 1 / 2 \<le> r"
    unfolding round_half_even_def n_def [symmetric] Let_def r_def [symmetric]
    by auto
  then show ?thesis
    using r unfolding y by auto
qed

lemma binary_exponent_le:
  assumes "0 < x"
  shows "power_int 2 (binary_exponent x) \<le> x"
proof -
  obtain a b where q: "quotient_of x = (a, b)" by (cases "quotient_of x")
  then have b: "0 < b" by (rule quotient_of_denom_pos)
  from q have x: "x = of_int a / of_int b" by (rule quotient_of_div)
  with assms b have a: "0 < a" by (simp add: zero_less_divide_iff)
  define k where "k = bitlen a - bitlen b"
  from bitlen_bounds [OF a] have la: "2 ^ nat (bitlen a - 1) \<le> a" by simp
  from bitlen_bounds [OF b] have lb: "b < 2 ^ nat (bitlen b)" by simp
  from a b have pa: "1 \<le> bitlen a" and pb: "1 \<le> bitlen b"
    using bitlen_eq_zero_iff [of a] bitlen_eq_zero_iff [of b] bitlen_nonneg [of a] bitlen_nonneg [of b]
    by linarith+
  have "power_int 2 (k - 1) \<le> x"
  proof -
    have "(power_int 2 (k - 1) :: rat) = power_int 2 (bitlen a - 1) / power_int 2 (bitlen b)"
      by (simp add: k_def power_int_diff)
    also have "\<dots> = 2 ^ nat (bitlen a - 1) / 2 ^ nat (bitlen b)"
      using pa pb by (simp add: power_int_def)
    also have "\<dots> \<le> of_int a / of_int b"
    proof -
      from la have "(of_int (2 ^ nat (bitlen a - 1)) :: rat) \<le> of_int a"
        by (simp only: of_int_le_iff)
      then have 1: "(2 ^ nat (bitlen a - 1) :: rat) \<le> of_int a" by simp
      from lb have "(of_int b :: rat) \<le> of_int (2 ^ nat (bitlen b))"
        by (simp only: of_int_le_iff less_imp_le)
      then have 2: "(of_int b :: rat) \<le> 2 ^ nat (bitlen b)" by simp
      from b have 3: "0 < (of_int b :: rat)" by simp
      from a have 4: "0 \<le> (of_int a :: rat)" by simp
      from 4 1 3 2 show ?thesis by (rule frac_le)
    qed
    finally show ?thesis by (simp only: x)
  qed
  then show ?thesis
    by (simp add: binary_exponent_def q k_def Let_def)
qed

lemma binary_exponent_less:
  assumes "0 < x"
  shows "x < power_int 2 (binary_exponent x + 1)"
proof -
  obtain a b where q: "quotient_of x = (a, b)" by (cases "quotient_of x")
  then have b: "0 < b" by (rule quotient_of_denom_pos)
  from q have x: "x = of_int a / of_int b" by (rule quotient_of_div)
  with assms b have a: "0 < a" by (simp add: zero_less_divide_iff)
  define k where "k = bitlen a - bitlen b"
  from bitlen_bounds [OF a] have la: "a < 2 ^ nat (bitlen a)" by simp
  from bitlen_bounds [OF b] have lb: "2 ^ nat (bitlen b - 1) \<le> b" by simp
  from a b have pa: "1 \<le> bitlen a" and pb: "1 \<le> bitlen b"
    using bitlen_eq_zero_iff [of a] bitlen_eq_zero_iff [of b] bitlen_nonneg [of a] bitlen_nonneg [of b]
    by linarith+
  have "x < power_int 2 (k + 1)"
  proof -
    from la have "(of_int a :: rat) < of_int (2 ^ nat (bitlen a))"
      by (simp only: of_int_less_iff)
    then have 1: "(of_int a :: rat) < 2 ^ nat (bitlen a)" by simp
    from lb have "(of_int (2 ^ nat (bitlen b - 1)) :: rat) \<le> of_int b"
      by (simp only: of_int_le_iff)
    then have 2: "(2 ^ nat (bitlen b - 1) :: rat) \<le> of_int b" by simp
    have "of_int a / of_int b < (2 ^ nat (bitlen a) :: rat) / 2 ^ nat (bitlen b - 1)"
      by (rule frac_less) (use 1 2 a in simp_all)
    also have "\<dots> = power_int 2 (bitlen a) / power_int 2 (bitlen b - 1)"
      using pa pb by (simp add: power_int_def)
    also have "\<dots> = power_int 2 (k + 1)"
      by (simp add: k_def power_int_diff [symmetric] algebra_simps)
    finally show ?thesis by (simp only: x)
  qed
  moreover have "(power_int 2 k :: rat) \<le> power_int 2 (k + 1)"
    by (rule power_int_increasing) simp_all
  ultimately show ?thesis
    by (auto simp: binary_exponent_def q k_def Let_def)
qed

lemma float64_error: "\<bar>float64 x - x\<bar> \<le> \<bar>x\<bar> / 2 ^ 53"
proof (cases "x = 0")
  case True
  then show ?thesis by (simp add: float64_def)
next
  case False
  define e where "e = binary_exponent \<bar>x\<bar>"
  define ulp :: rat where "ulp = power_int 2 (e - 52)"
  have up: "0 < ulp" by (simp add: ulp_def)
  from False have le: "power_int 2 e \<le> \<bar>x\<bar>"
    unfolding e_def by (intro binary_exponent_le) simp
  have f: "float64 x = of_int (round_half_even (x / ulp)) * ulp"
    using False by (simp add: float64_def ulp_def e_def Let_def)
  have "float64 x - x = (of_int (round_half_even (x / ulp)) - x / ulp) * ulp"
    using up by (simp add: f left_diff_distrib)
  then have "\<bar>float64 x - x\<bar> = \<bar>of_int (round_half_even (x / ulp)) - x / ulp\<bar> * ulp"
    using up by (simp only: abs_mult abs_of_pos)
  also have "\<dots> \<le> 1 / 2 * ulp"
    using round_half_even_error [of "x / ulp"] up by (intro mult_right_mono) simp_all
  also have "\<dots> = power_int 2 e / 2 ^ 53"
    by (simp add: ulp_def power_int_diff)
  also have "\<dots> \<le> \<bar>x\<bar> / 2 ^ 53"
    using le by (simp add: divide_right_mono)
  finally show ?thesis .
qed


lemma float64_bounds:
  assumes "0 \<le> x"
  shows "(1 - 1 / 2 ^ 53) * x \<le> float64 x" "float64 x \<le> (1 + 1 / 2 ^ 53) * x"
proof -
  from float64_error [of x] assms have "\<bar>float64 x - x\<bar> \<le> x / 2 ^ 53" by simp
  then have "x - x / 2 ^ 53 \<le> float64 x" "float64 x \<le> x + x / 2 ^ 53"
    by linarith+
  then show "(1 - 1 / 2 ^ 53) * x \<le> float64 x" "float64 x \<le> (1 + 1 / 2 ^ 53) * x"
    by (simp_all add: algebra_simps)
qed

lemma float64_quotient_error:
  assumes a: "0 \<le> a" and n: "0 < n"
  shows "\<bar>float64 (float64 a / float64 n) - a / n\<bar> \<le> 4 * (a / n) / 2 ^ 53"
proof -
  define u :: rat where "u = 1 / 2 ^ 53"
  have u: "0 < u" "u < 1" by (simp_all add: u_def)
  define A where "A = float64 a"
  define T where "T = float64 n"
  define r where "r = A / T"
  define q where "q = a / n"
  from a n have q: "0 \<le> q" by (simp add: q_def)
  from float64_bounds [OF a] have A: "(1 - u) * a \<le> A" "A \<le> (1 + u) * a"
    by (simp_all add: A_def u_def)
  from n have "0 \<le> n" by simp
  from float64_bounds [OF this] have T: "(1 - u) * n \<le> T" "T \<le> (1 + u) * n"
    by (simp_all add: T_def u_def)
  from u n have pn: "0 < (1 - u) * n" by simp
  with T(1) have Tp: "0 < T" by linarith
  from u a have "0 \<le> (1 - u) * a" by simp
  with A(1) have Ap: "0 \<le> A" by linarith
  with Tp have rp: "0 \<le> r" by (simp add: r_def)
  from u a have "0 \<le> (1 + u) * a" by simp
  from this A(2) pn T(1) have "A / T \<le> (1 + u) * a / ((1 - u) * n)" by (rule frac_le)
  then have r_up: "r \<le> (1 + u) / (1 - u) * q" by (simp add: r_def q_def)
  from Ap A(1) Tp T(2) have "(1 - u) * a / ((1 + u) * n) \<le> A / T" by (rule frac_le)
  then have r_lo: "(1 - u) / (1 + u) * q \<le> r" by (simp add: r_def q_def)
  define p where "p = float64 r"
  from float64_bounds [OF rp] have p: "(1 - u) * r \<le> p" "p \<le> (1 + u) * r"
    by (simp_all add: p_def u_def)
  have k1: "(1 + u) * ((1 + u) / (1 - u)) \<le> 1 + 4 * u"
    and k2: "1 - 4 * u \<le> (1 - u) * ((1 - u) / (1 + u))"
    by (simp_all add: u_def)
  note p(2)
  also have "(1 + u) * r \<le> (1 + u) * ((1 + u) / (1 - u) * q)"
    using r_up u by (intro mult_left_mono) simp_all
  also have "\<dots> = (1 + u) * ((1 + u) / (1 - u)) * q" by simp
  also have "\<dots> \<le> (1 + 4 * u) * q" using k1 q by (rule mult_right_mono)
  finally have up: "p \<le> q + 4 * u * q" by (simp add: algebra_simps)
  have "(1 - 4 * u) * q \<le> (1 - u) * ((1 - u) / (1 + u)) * q"
    using k2 q by (rule mult_right_mono)
  also have "\<dots> = (1 - u) * ((1 - u) / (1 + u) * q)" by simp
  also have "\<dots> \<le> (1 - u) * r"
    using r_lo u by (intro mult_left_mono) simp_all
  also have "\<dots> \<le> p" by (rule p(1))
  finally have lo: "q - 4 * u * q \<le> p" by (simp add: algebra_simps)
  from up lo have "\<bar>p - q\<bar> \<le> 4 * u * q" by linarith
  then show ?thesis
    by (simp add: p_def r_def A_def T_def q_def u_def)
qed

section \<open>Facts about the library operations\<close>

lemma position_None_iff: "position x xs = None \<longleftrightarrow> x \<notin> set xs"
  by (induction xs) auto

lemma position_Some_less: "position x xs = Some j \<Longrightarrow> j < length xs \<and> xs ! j = x"
  by (induction xs arbitrary: j) (auto split: if_splits)

lemma positions_total: "set cs \<subseteq> set cols \<Longrightarrow> \<exists>ps. positions cols cs = Inr ps"
proof (induction cs)
  case Nil
  then show ?case by simp
next
  case (Cons c cs)
  then obtain ps where "positions cols cs = Inr ps" by auto
  moreover from Cons.prems obtain j where "position c cols = Some j"
    using position_None_iff [of c cols] by auto
  ultimately show ?case by simp
qed

lemma those_eq_None_iff: "those xs = None \<longleftrightarrow> None \<in> set xs"
  by (induction xs) (auto split: option.splits)

lemma row_key_classified:
  "positions (st_columns df) cs = Inr ps \<Longrightarrow> row_key ps r \<noteq> None \<longleftrightarrow> classified df cs r"
proof (induction cs arbitrary: ps)
  case Nil
  then show ?case by (simp add: row_key_def classified_def)
next
  case (Cons c cs)
  from Cons.prems obtain j js where j: "position c (st_columns df) = Some j"
    and js: "positions (st_columns df) cs = Inr js" and ps: "ps = j # js"
    by (auto split: option.splits sum.splits)
  from Cons.IH [OF js] have "row_key js r \<noteq> None \<longleftrightarrow> classified df cs r" .
  then show ?case
    using j ps by (auto simp: row_key_def classified_def split: option.splits)
qed

lemma length_group_keys:
  assumes "positions (st_columns df) cs = Inr ps"
  shows "length (group_keys ps df) = length (filter (classified df cs) (st_rows df))"
proof -
  have "(\<lambda>r. row_key ps r \<noteq> None) = classified df cs"
    using row_key_classified [OF assms] by (simp add: fun_eq_iff)
  then show ?thesis
    by (simp add: group_keys_def List.map_filter_def)
qed

lemma sum_count_groups:
  assumes "distinct gs" "set gs = set keys"
  shows "(\<Sum>g\<leftarrow>gs. count_list keys g) = length keys"
proof -
  have "(\<Sum>g\<leftarrow>gs. count_list keys g) = sum (count_list keys) (set gs)"
    using assms(1) by (simp add: sum_list_distinct_conv_sum_set)
  also have "\<dots> = length keys"
    using assms(2) by (simp add: sum_count_set)
  finally show ?thesis .
qed

lemma take_rows_perm:
  assumes "mset ix = mset [0..<length xs]"
  shows "take_rows ix xs = map (\<lambda>i. xs ! i) ix" "mset (take_rows ix xs) = mset xs"
proof -
  have "set ix = {0..<length xs}"
    using assms by (metis mset_eq_setD set_upt)
  then have f: "filter (\<lambda>i. i < length xs) ix = ix" by (auto simp: filter_id_conv)
  then show a: "take_rows ix xs = map (\<lambda>i. xs ! i) ix" by (simp add: take_rows_def)
  have "mset (map (\<lambda>i. xs ! i) ix) = image_mset (\<lambda>i. xs ! i) (mset ix)"
    by simp
  also have "\<dots> = image_mset (\<lambda>i. xs ! i) (mset [0..<length xs])"
    by (simp only: assms)
  also have "\<dots> = mset (map (\<lambda>i. xs ! i) [0..<length xs])"
    by (simp only: mset_map)
  also have "\<dots> = mset xs" by (simp add: map_nth)
  finally show "mset (take_rows ix xs) = mset xs" using a by simp
qed

section \<open>Facts about \<^verbatim>\<open>computeAll\<close>\<close>

lemma level_histogram_shape:
  assumes srt: "descending_argsort srt"
    and h: "level_histogram srt hier df i = Inr h"
    and cols: "set hier \<subseteq> set (st_columns df)"
  shows "\<exists>ps gs. positions (st_columns df) (take (i + 1) hier) = Inr ps \<and>
           distinct gs \<and> set gs = set (group_keys ps df) \<and>
           mset gs = mset (sort (remdups (group_keys ps df))) \<and>
           sorted_wrt (\<lambda>a b. count_list (group_keys ps df) b \<le> count_list (group_keys ps df) a) gs \<and>
           columns h = [Scalar ''count'', Scalar ''percent''] \<and>
           body h = histogram_rows (group_keys ps df) gs"
proof -
  have sub: "set (take (i + 1) hier) \<subseteq> set (st_columns df)"
    using cols set_take_subset by fastforce
  with h obtain ps where ps: "positions (st_columns df) (take (i + 1) hier) = Inr ps"
    and ne: "take (i + 1) hier \<noteq> []"
    by (auto simp: level_histogram_def groupby_size_def split: if_splits sum.splits)
  define keys where "keys = group_keys ps df"
  define groups where "groups = sort (remdups keys)"
  define cnt where "cnt = (\<lambda>g. int (count_list keys g))"
  define ns where "ns = map cnt groups"
  define ix where "ix = srt (map IntV ns)"
  define gs where "gs = map (\<lambda>i. groups ! i) ix"
  define f0 where "f0 = DataFrame_of ''count'' \<lparr>s_names = map Some (take (i + 1) hier),
      s_items = map (\<lambda>g. (group_label g, IntV (cnt g))) groups\<rparr>"
  have gb: "groupby_size (take (i + 1) hier) df = Inr \<lparr>s_names = map Some (take (i + 1) hier),
      s_items = map (\<lambda>g. (group_label g, IntV (cnt g))) groups\<rparr>"
    using ps ne sub by (simp add: groupby_size_def keys_def groups_def cnt_def Let_def)
  have body0: "body f0 = map (\<lambda>g. (group_label g, [IntV (cnt g)])) groups"
    by (simp add: f0_def DataFrame_of_def comp_def)
  have cells0: "column_cells f0 0 = map IntV ns"
    by (simp add: column_cells_def body0 ns_def comp_def cell_at_def)
  have len: "length ns = length groups" by (simp add: ns_def)
  from srt have perm: "mset ix = mset [0..<length groups]"
    and sorted_ix: "sorted_wrt (\<lambda>i j. ns ! j \<le> ns ! i) ix"
    unfolding descending_argsort_def ix_def using len by metis+
  have set_ix: "set ix = {0..<length groups}"
    using perm by (metis mset_eq_setD set_upt)
  have lb: "length (body f0) = length groups" by (simp add: body0)
  have tr: "take_rows ix (body f0) = map (\<lambda>g. (group_label g, [IntV (cnt g)])) gs"
    using take_rows_perm(1) [of ix "body f0"] perm set_ix
    by (simp add: lb gs_def body0 comp_def)
  define h1 where "h1 = f0\<lparr>body := map (\<lambda>g. (group_label g, [IntV (cnt g)])) gs\<rparr>"
  have pos: "position (Scalar ''count'') (columns f0) = Some 0"
    by (simp add: f0_def DataFrame_of_def)
  have "take_rows (srt (column_cells f0 0)) (body f0) =
      map (\<lambda>g. (group_label g, [IntV (cnt g)])) gs"
    using tr by (simp only: cells0 ix_def)
  then have sb: "sort_by srt ''count'' f0 = Inr h1"
    unfolding sort_by_def pos h1_def by simp
  have mgs: "mset gs = mset groups"
  proof -
    have "mset gs = image_mset (\<lambda>i. groups ! i) (mset ix)" by (simp add: gs_def)
    also have "\<dots> = image_mset (\<lambda>i. groups ! i) (mset [0..<length groups])"
      by (simp only: perm)
    also have "\<dots> = mset (map (\<lambda>i. groups ! i) [0..<length groups])"
      by (simp only: mset_map)
    also have "\<dots> = mset groups" by (simp add: map_nth)
    finally show ?thesis .
  qed
  have dgs: "distinct gs" "set gs = set keys"
    using mgs mset_eq_setD [OF mgs] by (auto simp: groups_def dest: mset_eq_imp_distinct_iff)
  have sgs: "sorted_wrt (\<lambda>a b. count_list keys b \<le> count_list keys a) gs"
  proof -
    have "sorted_wrt (\<lambda>i j. count_list keys (groups ! j) \<le> count_list keys (groups ! i)) ix"
      using sorted_ix set_ix
      by (rule_tac sorted_wrt_mono_rel [where P = "\<lambda>i j. ns ! j \<le> ns ! i"])
         (auto simp: ns_def cnt_def)
    then show ?thesis by (simp add: gs_def sorted_wrt_map)
  qed
  have total: "sum_list (map cell_int (column_cells h1 0)) = int (length keys)"
  proof -
    have "sum_list (map cell_int (column_cells h1 0)) = (\<Sum>g\<leftarrow>gs. int (count_list keys g))"
      by (simp add: h1_def column_cells_def comp_def cell_at_def cell_int_def cnt_def)
    also have "\<dots> = int (\<Sum>g\<leftarrow>gs. count_list keys g)"
      by (induction gs) auto
    also have "\<dots> = int (length keys)"
      using sum_count_groups [OF dgs] by simp
    finally show ?thesis .
  qed
  have cells1: "column_cells h1 0 = map (\<lambda>g. IntV (cnt g)) gs"
    by (simp add: h1_def column_cells_def comp_def cell_at_def)
  have pc: "apply_percent (column_cells h1 0) =
      map (\<lambda>g. FloatV (float64 (float64 (of_int (100 * int (count_list keys g))) /
                               float64 (of_int (int (length keys)))))) gs"
    unfolding apply_percent_def total Let_def
    by (simp add: cells1 comp_def cell_int_def cnt_def)
  have fin: "set_column ''percent'' (apply_percent (column_cells h1 0)) h1 =
      h1\<lparr>columns := [Scalar ''count'', Scalar ''percent''], body := histogram_rows keys gs\<rparr>"
    unfolding pc
    by (simp add: set_column_def h1_def f0_def DataFrame_of_def histogram_rows_def
        zip_map_map comp_def zip_same_conv_map cnt_def)
  from h gb sb fin have "h = h1\<lparr>columns := [Scalar ''count'', Scalar ''percent''],
      body := histogram_rows keys gs\<rparr>"
    by (simp add: level_histogram_def f0_def cnt_def)
  then have "columns h = [Scalar ''count'', Scalar ''percent'']" "body h = histogram_rows keys gs"
    by simp_all
  with ps dgs mgs sgs show ?thesis
    unfolding keys_def groups_def by blast
qed

lemma level_histogram_total:
  assumes "i < length hier" "set hier \<subseteq> set (st_columns df)"
  shows "\<exists>h. level_histogram srt hier df i = Inr h"
proof -
  from assms(1) have ne: "take (i + 1) hier \<noteq> []" by (cases hier) auto
  have sub: "set (take (i + 1) hier) \<subseteq> set (st_columns df)"
    using assms(2) set_take_subset by fastforce
  then obtain ps where "positions (st_columns df) (take (i + 1) hier) = Inr ps"
    using positions_total by blast
  then show ?thesis
    using ne sub
    by (simp add: level_histogram_def groupby_size_def Let_def sort_by_def DataFrame_of_def)
qed

lemma computeAll_loop_other:
  "computeAll_loop srt hier df js d0 = Inr d \<Longrightarrow> L \<notin> (\<lambda>i. hier ! i) ` set js \<Longrightarrow> d L = d0 L"
  by (induction js arbitrary: d0) (auto split: sum.splits)

lemma computeAll_loop_entry:
  "computeAll_loop srt hier df js d0 = Inr d \<Longrightarrow> distinct (map (\<lambda>i. hier ! i) js) \<Longrightarrow>
   i \<in> set js \<Longrightarrow> level_histogram srt hier df i = Inr h \<Longrightarrow> d (hier ! i) = Some h"
proof (induction js arbitrary: d0)
  case Nil
  then show ?case by simp
next
  case (Cons j js)
  from Cons.prems(1) obtain hj where hj: "level_histogram srt hier df j = Inr hj"
    and rest: "computeAll_loop srt hier df js (d0(hier ! j \<mapsto> hj)) = Inr d"
    by (auto split: sum.splits)
  show ?case
  proof (cases "i \<in> set js")
    case True
    with Cons.IH [OF rest] Cons.prems show ?thesis by simp
  next
    case False
    with Cons.prems have ij: "i = j" by simp
    from Cons.prems(2) have "hier ! j \<notin> (\<lambda>i. hier ! i) ` set js" by simp
    from computeAll_loop_other [OF rest this] hj Cons.prems(4) ij show ?thesis by simp
  qed
qed

lemma computeAll_loop_total:
  "(\<And>i. i \<in> set js \<Longrightarrow> \<exists>h. level_histogram srt hier df i = Inr h) \<Longrightarrow>
   \<exists>d. computeAll_loop srt hier df js d0 = Inr d"
proof (induction js arbitrary: d0)
  case Nil
  then show ?case by simp
next
  case (Cons j js)
  then obtain hj where "level_histogram srt hier df j = Inr hj" by force
  moreover from Cons have "\<exists>d. computeAll_loop srt hier df js (d0(hier ! j \<mapsto> hj)) = Inr d"
    by simp
  ultimately show ?case by simp
qed

lemma computeAll_levels:
  assumes "distinct hier" "set hier \<subseteq> set (st_columns df)"
  shows "\<exists>d. computeAll srt hier df = Inr d \<and>
     (\<forall>i<length hier. \<exists>h. level_histogram srt hier df i = Inr h \<and> d (hier ! i) = Some h)"
proof -
  have "\<exists>d. computeAll_loop srt hier df [0..<length hier] Map.empty = Inr d"
    using level_histogram_total [OF _ assms(2)] by (intro computeAll_loop_total) simp
  then obtain d where d: "computeAll_loop srt hier df [0..<length hier] Map.empty = Inr d" ..
  have dist: "distinct (map (\<lambda>i. hier ! i) [0..<length hier])"
    using assms(1) by (simp add: map_nth)
  have "\<exists>h. level_histogram srt hier df i = Inr h \<and> d (hier ! i) = Some h" if "i < length hier" for i
  proof -
    from level_histogram_total [OF that assms(2)] obtain h
      where h: "level_histogram srt hier df i = Inr h" ..
    from computeAll_loop_entry [OF d dist _ h] that show ?thesis using h by simp
  qed
  with d show ?thesis by (auto simp: computeAll_def)
qed

lemma descending_stable_argsort: "descending_argsort stable_argsort"
  unfolding descending_argsort_def
proof (intro allI conjI)
  fix ns :: "int list"
  let ?f = "\<lambda>i. - cell_int (map IntV ns ! i)"
  show "mset (stable_argsort (map IntV ns)) = mset [0..<length ns]"
    by (simp add: stable_argsort_def)
  have "sorted (map ?f (sort_key ?f [0..<length ns]))" by (rule sorted_sort_key)
  then have "sorted_wrt (\<lambda>i j. ?f i \<le> ?f j) (sort_key ?f [0..<length ns])"
    by (simp add: sorted_map)
  then have "sorted_wrt (\<lambda>i j. ns ! j \<le> ns ! i) (sort_key ?f [0..<length ns])"
    by (rule sorted_wrt_mono_rel [rotated]) (auto simp: cell_int_def)
  then show "sorted_wrt (\<lambda>i j. ns ! j \<le> ns ! i) (stable_argsort (map IntV ns))"
    by (simp add: stable_argsort_def)
qed


lemma histogram_columns:
  assumes "columns h = [Scalar ''count'', Scalar ''percent'']" "body h = histogram_rows keys gs"
  shows "counts h = map (\<lambda>g. int (count_list keys g)) gs"
    and "percents h = map (\<lambda>g. float64 (float64 (of_int (100 * int (count_list keys g))) /
                                    float64 (of_int (int (length keys))))) gs"
    and "index h = map group_label gs"
  using assms
  by (simp_all add: counts_def percents_def column_def column_cells_def histogram_rows_def
      comp_def cell_at_def cell_int_def cell_num_def index_def)

lemma sum_list_int_count:
  "(\<Sum>g\<leftarrow>gs. int (count_list keys g)) = int (\<Sum>g\<leftarrow>gs. count_list keys g)"
  by (induction gs) auto

lemma sum_list_percent:
  "(\<Sum>g\<leftarrow>gs. 100 * rat_of_nat (count_list keys g) / rat_of_nat n) =
     100 * rat_of_nat (\<Sum>g\<leftarrow>gs. count_list keys g) / rat_of_nat n"
  by (induction gs) (auto simp: add_divide_distrib distrib_left)

lemma sum_list_error:
  fixes k :: rat
  assumes "list_all2 (\<lambda>p q. \<bar>p - q\<bar> \<le> k * q) ps qs"
  shows "\<bar>sum_list ps - sum_list qs\<bar> \<le> k * sum_list qs"
  using assms
proof (induction rule: list_all2_induct)
  case Nil
  then show ?case by simp
next
  case (Cons p ps q qs)
  have "\<bar>sum_list (p # ps) - sum_list (q # qs)\<bar> = \<bar>(p - q) + (sum_list ps - sum_list qs)\<bar>"
    by simp
  also have "\<dots> \<le> \<bar>p - q\<bar> + \<bar>sum_list ps - sum_list qs\<bar>" by (rule abs_triangle_ineq)
  also have "\<dots> \<le> k * q + k * sum_list qs" using Cons by (intro add_mono)
  finally show ?case by (simp add: distrib_left)
qed

lemma classified_take: "classified df by r \<Longrightarrow> classified df (take k by) r"
  unfolding classified_def list_all_iff by (meson in_set_takeD)

text \<open>The facts about one level histogram that the claims on computeAll rest on.\<close>

lemma level_histogram_facts:
  assumes srt: "descending_argsort srt" and h: "level_histogram srt hier df i = Inr h"
    and cols: "set hier \<subseteq> set (st_columns df)"
  shows "count_total h = int (length (classified_records hier df i))"
    and "percents h = percent_of_count h"
    and "classified_records hier df i \<noteq> [] \<Longrightarrow>
           list_all2 (\<lambda>p q. \<bar>p - q\<bar> \<le> 4 * q / 2 ^ 53) (percents h) (exact_percent h)"
    and "classified_records hier df i \<noteq> [] \<Longrightarrow> \<bar>percent_total h - 100\<bar> \<le> 400 / 2 ^ 53"
    and "non_increasing (counts h)"
proof -
  from level_histogram_shape [OF srt h cols] obtain ps gs where
    ps: "positions (st_columns df) (take (i + 1) hier) = Inr ps" and
    d: "distinct gs" "set gs = set (group_keys ps df)" and
    s: "sorted_wrt (\<lambda>a b. count_list (group_keys ps df) b \<le> count_list (group_keys ps df) a) gs" and
    c: "columns h = [Scalar ''count'', Scalar ''percent'']" and
    b: "body h = histogram_rows (group_keys ps df) gs"
    by blast
  let ?keys = "group_keys ps df"
  note hc = histogram_columns [OF c b]
  have len: "length ?keys = length (classified_records hier df i)"
    using length_group_keys [OF ps] by (simp add: classified_records_def)
  have tot: "(\<Sum>g\<leftarrow>gs. count_list ?keys g) = length ?keys"
    by (rule sum_count_groups [OF d])
  show ct: "count_total h = int (length (classified_records hier df i))"
    by (simp add: count_total_def hc(1) sum_list_int_count tot len)
  show "percents h = percent_of_count h"
    unfolding percent_of_count_def ct by (simp add: hc comp_def len)
  have ex: "exact_percent h =
      map (\<lambda>g. 100 * rat_of_int (int (count_list ?keys g)) / rat_of_int (int (length ?keys))) gs"
    unfolding exact_percent_def ct by (simp add: hc comp_def len)
  have close: "list_all2 (\<lambda>p q. \<bar>p - q\<bar> \<le> 4 * q / 2 ^ 53) (percents h) (exact_percent h)"
    if "classified_records hier df i \<noteq> []"
  proof -
    from that len have n: "0 < rat_of_int (int (length ?keys))" by simp
    define P where "P = (\<lambda>g. float64 (float64 (of_int (100 * int (count_list ?keys g))) /
        float64 (of_int (int (length ?keys)))))"
    define Q where "Q = (\<lambda>g. 100 * rat_of_int (int (count_list ?keys g)) /
        rat_of_int (int (length ?keys)))"
    have "\<bar>P g - Q g\<bar> \<le> 4 * Q g / 2 ^ 53" for g
      unfolding P_def Q_def
      using float64_quotient_error [OF _ n, of "of_int (100 * int (count_list ?keys g))"]
      by simp
    then have "\<forall>g\<in>set gs. \<bar>P g - Q g\<bar> \<le> 4 * Q g / 2 ^ 53" by blast
    then have "list_all2 (\<lambda>p q. \<bar>p - q\<bar> \<le> 4 * q / 2 ^ 53) (map P gs) (map Q gs)"
      by (simp only: list_all2_map1 list_all2_map2 list_all2_same)
    then show ?thesis
      unfolding hc(2) ex P_def Q_def .
  qed
  then show "list_all2 (\<lambda>p q. \<bar>p - q\<bar> \<le> 4 * q / 2 ^ 53) (percents h) (exact_percent h)"
    if "classified_records hier df i \<noteq> []"
    using that .
  show "\<bar>percent_total h - 100\<bar> \<le> 400 / 2 ^ 53" if "classified_records hier df i \<noteq> []"
  proof -
    from that len have "rat_of_int (int (length ?keys)) \<noteq> 0" by simp
    then have e: "sum_list (exact_percent h) = 100"
      unfolding ex by (simp add: sum_list_percent tot)
    from close [OF that]
    have "list_all2 (\<lambda>p q. \<bar>p - q\<bar> \<le> 4 / 2 ^ 53 * q) (percents h) (exact_percent h)"
      by (simp add: mult.commute)
    from sum_list_error [OF this] show ?thesis
      by (simp add: percent_total_def e)
  qed
  show "non_increasing (counts h)"
    using s by (simp add: non_increasing_def hc(1) sorted_wrt_map)
qed

section \<open>The claims about \<^verbatim>\<open>computeAll\<close>\<close>

lemma classified_records_all:
  assumes "list_all (classified df hier) (st_rows df)"
  shows "classified_records hier df i = st_rows df"
  unfolding classified_records_def
  using assms by (auto simp: list_all_iff filter_id_conv intro: classified_take)

text \<open>
  C6 (as amended). For a sample table that has a column for every level of the hierarchy,
  computeAll returns a histogram for every level, and the sum of its count column is the
  number of records that have a value other than null at that level and at every coarser
  level. For a sample in which every record is classified at every level this is the total
  number of records, the same number at every level.
\<close>

theorem computeAll_count_total:
  assumes "descending_argsort srt" "distinct hier" "set hier \<subseteq> set (st_columns df)"
  shows "\<exists>d. computeAll srt hier df = Inr d \<and>
           (\<forall>i<length hier. \<exists>h. d (hier ! i) = Some h \<and>
              count_total h = int (length (classified_records hier df i)) \<and>
              (list_all (classified df hier) (st_rows df) \<longrightarrow>
                 count_total h = int (length (st_rows df))))"
proof -
  from computeAll_levels [OF assms(2,3), of srt] obtain d where
    d: "computeAll srt hier df = Inr d" and
    lv: "\<forall>i<length hier. \<exists>h. level_histogram srt hier df i = Inr h \<and> d (hier ! i) = Some h"
    by blast
  have "\<exists>h. d (hier ! i) = Some h \<and>
          count_total h = int (length (classified_records hier df i)) \<and>
          (list_all (classified df hier) (st_rows df) \<longrightarrow> count_total h = int (length (st_rows df)))"
    if "i < length hier" for i
  proof -
    from lv that obtain h where h: "level_histogram srt hier df i = Inr h" "d (hier ! i) = Some h"
      by blast
    from level_histogram_facts(1) [OF assms(1) h(1) assms(3)] h(2) show ?thesis
      by (auto simp: classified_records_all)
  qed
  with d show ?thesis by blast
qed

theorem computeAll_count_total_witness:
  "descending_argsort stable_argsort \<and> distinct example_hier \<and>
   set example_hier \<subseteq> set (st_columns example_table) \<and>
   map_option count_total
     (histogram_at (computeAll stable_argsort example_hier example_table) ''kingdom'') = Some 3 \<and>
   map_option count_total
     (histogram_at (computeAll stable_argsort example_hier example_table) ''phylum'') = Some 2"
proof -
  have a: "distinct example_hier" "set example_hier \<subseteq> set (st_columns example_table)"
    by (simp_all add: example_hier_def example_table_def)
  from computeAll_count_total [OF descending_stable_argsort a] obtain d where
    d: "computeAll stable_argsort example_hier example_table = Inr d" and
    lv: "\<forall>i<length example_hier. \<exists>h. d (example_hier ! i) = Some h \<and>
           count_total h = int (length (classified_records example_hier example_table i))"
    by blast
  have l0: "length (classified_records example_hier example_table 0) = 3"
    and l1: "length (classified_records example_hier example_table 1) = 2"
    by code_simp+
  from lv [rule_format, of 0] lv [rule_format, of 1] l0 l1
  have "map_option count_total (d ''kingdom'') = Some 3" "map_option count_total (d ''phylum'') = Some 2"
    by (auto simp: example_hier_def)
  with d a descending_stable_argsort show ?thesis
    by (simp add: histogram_at_def)
qed

theorem computeAll_count_total_counterexample:
  "length (st_rows example_table) = 3 \<and>
   map_option count_total
     (histogram_at (computeAll stable_argsort example_hier example_table) ''kingdom'') = Some 3 \<and>
   map_option count_total
     (histogram_at (computeAll stable_argsort example_hier example_table) ''phylum'') = Some 2"
  by code_simp







section \<open>The claims about validation and failure\<close>

text \<open>
  C4. validateSampleDictTaxHistDict raises the type error for every argument that is not a
  dictionary, the emptiness error for the dictionary without entries, and returns normally,
  with no value, for every dictionary with at least one entry.
\<close>

theorem validateSampleDictTaxHistDict_cases:
  "validateSampleDictTaxHistDict (NotDict v) =
     Inl (TypeError ''argument sampleDictTaxHistDict should be a dict'') \<and>
   validateSampleDictTaxHistDict (Dict []) =
     Inl (ValueError ''argument sampleDictTaxHistDict must have at least one entry'') \<and>
   validateSampleDictTaxHistDict (Dict (entry # entries)) = Inr ()"
  by (simp add: validateSampleDictTaxHistDict_def)

text \<open>
  C5. For a level name that is not in the hierarchy, mergeAcrossSamples fails with the
  error for an unrecognized level, whatever the collection is: the test comes before the
  validation and before the loop, so that no table is built or returned, and the store of
  tables is left as it was.
\<close>

theorem mergeAcrossSamples_unrecognized:
  assumes "taxonomyLevel \<notin> set hier"
  shows "mergeAcrossSamples hier c taxonomyLevel =
           Inl (ValueError (''taxonomy level '' @ taxonomyLevel @ '' is not recognized'')) \<and>
         mergeAcrossSamples_h hier c' taxonomyLevel \<sigma> =
           (\<sigma>, Inl (ValueError (''taxonomy level '' @ taxonomyLevel @ '' is not recognized'')))"
  using assms by (simp add: mergeAcrossSamples_def mergeAcrossSamples_h_def)

theorem mergeAcrossSamples_unrecognized_witness:
  "''genus'' \<notin> set example_hier \<and>
   mergeAcrossSamples example_hier (Dict example_entries) ''genus'' =
     Inl (ValueError ''taxonomy level genus is not recognized'') \<and>
   mergeAcrossSamples_h example_hier example_refs ''genus'' example_store =
     (example_store, Inl (ValueError ''taxonomy level genus is not recognized''))"
proof -
  have a: "''genus'' \<notin> set example_hier" by (simp add: example_hier_def)
  from mergeAcrossSamples_unrecognized [OF a, of "Dict example_entries" example_refs example_store] a
  show ?thesis by simp
qed

text \<open>
  C10. With a collection of at least one sample and a hierarchy of at least one level,
  mergeAcrossSamplesTaxLevels called with no metadata returns no mapping: it fails. When the
  merge of the first level succeeds, the failure is that of the join, which receives the
  null metadata.
\<close>

theorem mergeAcrossSamplesTaxLevels_no_metadata:
  assumes "entries \<noteq> []" "hier \<noteq> []"
  shows "(\<exists>e. mergeAcrossSamplesTaxLevels hier (Dict entries) MetaNone = Inl e) \<and>
         (\<forall>m. mergeAcrossSamples hier (Dict entries) (hd hier) = Inr m \<longrightarrow>
              mergeAcrossSamplesTaxLevels hier (Dict entries) MetaNone =
                Inl (MergeOperandError ''NoneType''))"
proof -
  from assms(2) obtain l ls where hier: "hier = l # ls" by (cases hier) auto
  from assms(1) have v: "validateSampleDictTaxHistDict (Dict entries) = Inr ()"
    by (cases entries) (simp_all add: validateSampleDictTaxHistDict_def)
  show ?thesis
  proof (cases "mergeAcrossSamples hier (Dict entries) l")
    case (Inl e)
    then show ?thesis
      using v by (simp add: mergeAcrossSamplesTaxLevels_def merge_level_def hier)
  next
    case (Inr m)
    then show ?thesis
      using v by (simp add: mergeAcrossSamplesTaxLevels_def merge_level_def merge_metadata_def hier)
  qed
qed

theorem mergeAcrossSamplesTaxLevels_no_metadata_witness:
  "example_entries \<noteq> [] \<and> example_hier \<noteq> [] \<and>
   mergeAcrossSamplesTaxLevels example_hier (Dict example_entries) MetaNone =
     Inl (MergeOperandError ''NoneType'')"
proof -
  have a: "example_entries \<noteq> []" "example_hier \<noteq> []"
    by (simp_all add: example_entries_def example_hier_def)
  have "\<not> isl (mergeAcrossSamples example_hier (Dict example_entries) (hd example_hier))"
    by code_simp
  then obtain m where "mergeAcrossSamples example_hier (Dict example_entries) (hd example_hier) = Inr m"
    by (cases "mergeAcrossSamples example_hier (Dict example_entries) (hd example_hier)") auto
  with mergeAcrossSamplesTaxLevels_no_metadata [OF a] a show ?thesis by blast
qed

text \<open>
  C3. The claim is that a table whose row keys are tuples gets an index whose levels are
  named by the hierarchy. The code builds the list of names, and stores it in the attribute
  \<^verbatim>\<open>names\<close> of the table: the levels of the index stay without names. For the example,
  at the level \<^verbatim>\<open>phylum\<close> the names of the index are unset and the attribute holds the
  two level names; at the level \<^verbatim>\<open>kingdom\<close>, whose keys are plain, the index is named.
\<close>

theorem mergeAcrossSamplesTaxLevels_index_names:
  "map_option index
     (histogram_at (mergeAcrossSamplesTaxLevels example_hier example_collection example_metadata)
        ''phylum'') =
     Some [Tuple [''Bacteria'', ''Firmicutes''], Tuple [''Bacteria'', ''Proteobacteria'']] \<and>
   map_option index_names
     (histogram_at (mergeAcrossSamplesTaxLevels example_hier example_collection example_metadata)
        ''phylum'') = Some [None, None] \<and>
   map_option attr_names
     (histogram_at (mergeAcrossSamplesTaxLevels example_hier example_collection example_metadata)
        ''phylum'') = Some (Some [''kingdom'', ''phylum'']) \<and>
   map_option index_names
     (histogram_at (mergeAcrossSamplesTaxLevels example_hier example_collection example_metadata)
        ''kingdom'') = Some [Some ''kingdom'']"
  by code_simp

section \<open>Facts about the merge of the samples\<close>

lemma position_Some_iff: "x \<in> set xs \<Longrightarrow> \<exists>j. position x xs = Some j"
  using position_None_iff [of x xs] by (cases "position x xs") auto

lemma sample_percent_Null:
  assumes "k \<notin> set (sample_keys d level)"
  shows "sample_percent d level k = Null"
proof (cases "d level")
  case None
  then show ?thesis by (simp add: sample_percent_def)
next
  case (Some h)
  with assms have "k \<notin> fst ` set (body h)" by (simp add: sample_keys_def index_def)
  then have "map_of (body h) k = None" by (simp add: map_of_eq_None_iff)
  with Some show ?thesis by (simp add: sample_percent_def cell_def)
qed

lemma rows_or_null_merged:
  assumes "merged_form level entries f"
  shows "rows_or_null f k = [map (\<lambda>(s, d). sample_percent d level k) entries]"
proof -
  let ?row = "\<lambda>k. map (\<lambda>(s, d). sample_percent d level k) entries"
  from assms have b: "body f = map (\<lambda>k. (k, ?row k)) (index f)"
    and d: "distinct (index f)" and s: "set (index f) = all_keys level entries"
    and c: "length (columns f) = length entries"
    by (simp_all add: merged_form_def merged_body_def)
  have flt: "map snd (filter (\<lambda>(k', r). k' = k) (map (\<lambda>k. (k, ?row k)) ks)) =
      (if k \<in> set ks then [?row k] else [])" if "distinct ks" for ks
    using that by (induction ks) auto
  show ?thesis
  proof (cases "k \<in> set (index f)")
    case True
    then show ?thesis
      unfolding rows_or_null_def using flt [OF d] b by simp
  next
    case False
    with s have "\<forall>(s, d)\<in>set entries. k \<notin> set (sample_keys d level)"
      by (auto simp: all_keys_def)
    then have "\<forall>e\<in>set entries. (case e of (s, d) \<Rightarrow> sample_percent d level k) = Null"
      by (auto simp: sample_percent_Null)
    then have "?row k = replicate (length entries) Null"
      by (simp add: map_replicate_const [symmetric] cong: map_cong)
    with False show ?thesis
      unfolding rows_or_null_def using flt [OF d] b c by (simp add: null_row_def)
  qed
qed

lemma index_merged_body [simp]: "map fst (merged_body level entries keys) = keys"
  by (simp add: merged_body_def comp_def)

lemma all_keys_append: "all_keys level (xs @ ys) = all_keys level xs \<union> all_keys level ys"
  by (auto simp: all_keys_def)

lemma inj_label_key: "inj label_key"
  by (rule injI) (auto simp: label_key_def split: label.splits)

lemma sorted_key_unique:
  assumes "sorted (map label_key xs)" "sorted (map label_key ys)"
    and "distinct xs" "distinct ys" "set xs = set ys"
  shows "xs = ys"
proof -
  have "distinct (map label_key xs)" "distinct (map label_key ys)"
    using assms(3,4) inj_label_key by (simp_all add: distinct_map inj_on_def inj_def)
  moreover have "set (map label_key xs) = set (map label_key ys)"
    using assms(5) by simp
  ultimately have "map label_key xs = map label_key ys"
    using assms(1,2) by (intro sorted_distinct_set_unique)
  then show ?thesis
    using inj_label_key by (simp add: inj_map_eq_map)
qed

lemma sort_labels_cong:
  assumes "set xs = set ys"
  shows "sort_key label_key (remdups xs) = sort_key label_key (remdups ys)"
  by (rule sorted_key_unique) (simp_all add: assms)

lemma distinct_merged_labels:
  assumes "\<forall>ix\<in>set ixs. distinct ix"
  shows "distinct (merged_labels ixs)"
proof -
  define ne where "ne = filter (\<lambda>ix. ix \<noteq> []) ixs"
  have "distinct (hd ne)" if "ne \<noteq> []"
  proof -
    from that have "hd ne \<in> set ne" by simp
    then have "hd ne \<in> set ixs" by (simp add: ne_def)
    with assms show ?thesis by blast
  qed
  then show ?thesis
    by (simp add: merged_labels_def Let_def ne_def [symmetric])
qed

lemma set_concat_equal:
  assumes "filter (\<lambda>ix. ix \<noteq> []) ixs \<noteq> []"
    and "list_all (\<lambda>ix. ix = L) (filter (\<lambda>ix. ix \<noteq> []) ixs)"
  shows "set (concat ixs) = set L"
proof -
  from assms(2) have e: "\<forall>ix\<in>set ixs. ix = [] \<or> ix = L"
    by (auto simp: list_all_iff)
  from assms(1) obtain ix where "ix \<in> set ixs" "ix \<noteq> []"
    by (auto simp: filter_empty_conv)
  with e have "L \<in> set ixs" by auto
  with e show ?thesis by auto
qed

lemma outer_labels_step:
  assumes d: "\<forall>ix\<in>set ixs. distinct ix" and di: "distinct ix"
  shows "outer_labels (merged_labels ixs) ix = merged_labels (ixs @ [ix])"
proof -
  define ne where "ne = filter (\<lambda>ix. ix \<noteq> []) ixs"
  have dA: "distinct (merged_labels ixs)" by (rule distinct_merged_labels [OF d])
  show ?thesis
  proof (cases "ix = []")
    case True
    then have "merged_labels (ixs @ [ix]) = merged_labels ixs"
      by (simp add: merged_labels_def Let_def)
    moreover from dA have "remdups (merged_labels ixs) = merged_labels ixs"
      by (rule distinct_remdups_id)
    ultimately show ?thesis
      using True by (simp add: outer_labels_def)
  next
    case ix: False
    show ?thesis
    proof (cases "ne = []")
      case True
      with ix di show ?thesis
        by (simp add: outer_labels_def merged_labels_def Let_def ne_def [symmetric])
    next
      case ne: False
      then have "hd ne \<in> set ne" by simp
      then have hd: "hd ne \<noteq> []" by (simp add: ne_def)
      show ?thesis
      proof (cases "list_all (\<lambda>x. x = hd ne) ne")
        case True
        with ne have A: "merged_labels ixs = hd ne"
          by (simp add: merged_labels_def Let_def ne_def [symmetric])
        from set_concat_equal [of ixs "hd ne"] ne True
        have sc: "set (concat ixs) = set (hd ne)" by (simp add: ne_def)
        show ?thesis
        proof (cases "ix = hd ne")
          case e: True
          with ne True dA A ix show ?thesis
            by (simp add: outer_labels_def merged_labels_def Let_def ne_def [symmetric])
        next
          case False
          have "sort_key label_key (remdups (hd ne @ ix)) =
              sort_key label_key (remdups (concat ixs @ ix))"
            by (rule sort_labels_cong) (use sc in simp)
          with False ne True A ix hd show ?thesis
            by (simp add: outer_labels_def merged_labels_def Let_def ne_def [symmetric])
        qed
      next
        case False
        with ne have A: "merged_labels ixs = sort_key label_key (remdups (concat ixs))"
          by (simp add: merged_labels_def Let_def ne_def [symmetric])
        from \<open>hd ne \<in> set ne\<close> have "hd ne \<in> set ixs" by (simp add: ne_def)
        with hd have "concat ixs \<noteq> []" by auto
        moreover have "set (merged_labels ixs) = set (concat ixs)"
          by (simp add: A)
        ultimately have An: "merged_labels ixs \<noteq> []"
          by (simp only: set_empty [symmetric] not_False_eq_True)
        have B: "merged_labels (ixs @ [ix]) = sort_key label_key (remdups (concat ixs @ ix))"
          using False ne ix by (simp add: merged_labels_def Let_def ne_def [symmetric])
        show ?thesis
        proof (cases "ix = merged_labels ixs")
          case e: True
          have "sort_key label_key (remdups (concat ixs @ ix)) =
              sort_key label_key (remdups (concat ixs))"
            by (rule sort_labels_cong) (simp add: e A)
          with e dA ix show ?thesis
            unfolding B by (simp add: outer_labels_def A)
        next
          case n: False
          have "sort_key label_key (remdups (merged_labels ixs @ ix)) =
              sort_key label_key (remdups (concat ixs @ ix))"
            by (rule sort_labels_cong) (simp add: A)
          with n An ix show ?thesis
            unfolding B by (auto simp: outer_labels_def)
        qed
      qed
    qed
  qed
qed

lemma merged_labels_mset:
  assumes "mset ixs' = mset ixs"
  shows "merged_labels ixs' = merged_labels ixs"
proof -
  define ne where "ne = filter (\<lambda>ix. ix \<noteq> []) ixs"
  define ne' where "ne' = filter (\<lambda>ix. ix \<noteq> []) ixs'"
  from assms have "mset ne' = mset ne" by (simp add: ne_def ne'_def)
  then have s: "set ne' = set ne" and l: "length ne' = length ne"
    by (rule mset_eq_setD, rule mset_eq_length)
  from assms have "set ixs' = set ixs" by (rule mset_eq_setD)
  then have c: "sort_key label_key (remdups (concat ixs')) =
      sort_key label_key (remdups (concat ixs))"
    by (intro sort_labels_cong) simp
  show ?thesis
  proof (cases "ne = []")
    case True
    with l show ?thesis
      by (simp add: merged_labels_def Let_def ne_def [symmetric] ne'_def [symmetric])
  next
    case False
    with l have ne': "ne' \<noteq> []" by auto
    have one: "list_all (\<lambda>x. x = hd b) b \<and> hd b = hd a"
      if "list_all (\<lambda>x. x = hd a) a" "set b = set a" "a \<noteq> []" "b \<noteq> []"
      for a b :: "label list list"
    proof -
      from that(4) have "hd b \<in> set b" by simp
      with that(1,2) have "hd b = hd a" by (simp add: list_all_iff)
      with that(1,2) show ?thesis by (simp add: list_all_iff)
    qed
    show ?thesis
    proof (cases "list_all (\<lambda>x. x = hd ne) ne")
      case True
      from one [OF True s False ne'] have la: "list_all (\<lambda>x. x = hd ne') ne'"
        by (rule conjunct1)
      from one [OF True s False ne'] have hd: "hd ne' = hd ne"
        by (rule conjunct2)
      from la ne' have "merged_labels ixs' = hd ne'"
        by (simp add: merged_labels_def Let_def ne'_def [symmetric])
      moreover from True False have "merged_labels ixs = hd ne"
        by (simp add: merged_labels_def Let_def ne_def [symmetric])
      ultimately show ?thesis by (simp only: hd)
    next
      case n: False
      have "\<not> list_all (\<lambda>x. x = hd ne') ne'"
        using one [OF _ s [symmetric] ne' False] n by blast
      with n False ne' c show ?thesis
        by (simp add: merged_labels_def Let_def ne_def [symmetric] ne'_def [symmetric])
    qed
  qed
qed

lemma merge_outer_merged:
  assumes l: "merged_form level ls l" and r: "merged_form level rs r"
    and disj: "fst ` set ls \<inter> fst ` set rs = {}"
  shows "merged_form level (ls @ rs) (merge_outer l r)"
    and "index (merge_outer l r) = outer_labels (index l) (index r)"
proof -
  let ?keys = "outer_labels (index l) (index r)"
  have jr: "join_rows l r k = [(k, map (\<lambda>(s, d). sample_percent d level k) (ls @ rs))]" for k
    by (simp add: join_rows_def rows_or_null_merged [OF l] rows_or_null_merged [OF r])
  have cc: "concat (map (\<lambda>k. [g k]) ks) = map g ks" for g :: "label \<Rightarrow> label \<times> cell list" and ks
    by (induction ks) auto
  have jr': "join_rows l r = (\<lambda>k. [(k, map (\<lambda>(s, d). sample_percent d level k) (ls @ rs))])"
    by (rule ext) (rule jr)
  have body: "body (merge_outer l r) = merged_body level (ls @ rs) ?keys"
    unfolding merge_outer_def merged_body_def jr'
    by (simp add: cc del: map_append)
  then show ix: "index (merge_outer l r) = ?keys"
    by (simp add: index_def)
  have cl: "columns l = map (\<lambda>(s, d). Scalar s) ls" and cr: "columns r = map (\<lambda>(s, d). Scalar s) rs"
    using l r by (simp_all add: merged_form_def)
  have "set (columns l) \<inter> set (columns r) = {}"
    using disj unfolding cl cr by force
  then have "\<forall>c\<in>set (columns l). add_suffix (columns r) ''_x'' c = c"
    and "\<forall>c\<in>set (columns r). add_suffix (columns l) ''_y'' c = c"
    by (auto simp: add_suffix_def)
  then have "map (add_suffix (columns r) ''_x'') (columns l) = columns l"
    and "map (add_suffix (columns l) ''_y'') (columns r) = columns r"
    by (simp_all add: map_idI)
  then have cols: "columns (merge_outer l r) = map (\<lambda>(s, d). Scalar s) (ls @ rs)"
    by (simp add: merge_outer_def merged_columns_def cl cr)
  have "set (index l) = all_keys level ls" "set (index r) = all_keys level rs"
    using l r by (simp_all add: merged_form_def)
  then have "set ?keys = all_keys level (ls @ rs)" "distinct ?keys"
    by (auto simp: all_keys_append outer_labels_def)
  with body cols ix show "merged_form level (ls @ rs) (merge_outer l r)"
    by (simp add: merged_form_def merge_outer_def)
qed

lemma sample_column_merged:
  assumes dl: "d level = Some h" and ok: "level_histogram_ok h"
  shows "\<exists>t. sample_column s d level = Inr t \<and> merged_form level [(s, d)] t \<and>
           index t = index h \<and> index_names t = index_names h"
proof -
  from ok have cols: "columns h = [Scalar ''count'', Scalar ''percent'']"
    and len: "\<forall>(k, r)\<in>set (body h). length r = 2" and dist: "distinct (map fst (body h))"
    by (simp_all add: level_histogram_ok_def list_all_iff index_def)
  define t where "t = h\<lparr>columns := [Scalar s], body := map (\<lambda>(k, r). (k, [r ! 1])) (body h),
      attr_names := None\<rparr>"
  have two: "\<exists>a b. r = [a, b]" if "length r = 2" for r :: "cell list"
    using that by (cases r; cases "tl r") auto
  have "map (\<lambda>(k, r). (k, map snd (filter (\<lambda>(l, v). l \<noteq> Scalar ''count'') (zip (columns h) r)))) (body h) =
      map (\<lambda>(k, r). (k, [r ! 1])) (body h)"
  proof (rule map_cong [OF refl])
    fix x assume "x \<in> set (body h)"
    with len obtain k a b where "x = (k, [a, b])"
      by (cases x) (auto dest!: two)
    then show "(case x of (k, r) \<Rightarrow> (k, map snd (filter (\<lambda>(l, v). l \<noteq> Scalar ''count'') (zip (columns h) r)))) =
        (case x of (k, r) \<Rightarrow> (k, [r ! 1]))"
      by (simp add: cols)
  qed
  then have sc: "sample_column s d level = Inr t"
    by (simp add: sample_column_def dl drop_column_def rename_column_def cols t_def)
  have "map (\<lambda>(k, r). (k, [r ! 1])) (body h) =
      map (\<lambda>k. (k, [sample_percent d level k])) (map fst (body h))"
    unfolding map_map
  proof (rule map_cong [OF refl])
    fix x assume x: "x \<in> set (body h)"
    with len obtain k a b where xe: "x = (k, [a, b])"
      by (cases x) (auto dest!: two)
    with x dist have "map_of (body h) k = Some [a, b]" by simp
    then have "sample_percent d level k = b"
      by (simp add: sample_percent_def dl cell_def cols cell_at_def)
    with xe show "(case x of (k, r) \<Rightarrow> (k, [r ! 1])) = ((\<lambda>k. (k, [sample_percent d level k])) \<circ> fst) x"
      by simp
  qed
  moreover have ix: "index t = index h"
    by (simp add: t_def index_def comp_def case_prod_unfold)
  ultimately have b: "body t = merged_body level [(s, d)] (index t)"
    by (simp add: t_def merged_body_def index_def)
  have "distinct (index t)" unfolding ix using dist by (simp add: index_def)
  moreover have "set (index t) = all_keys level [(s, d)]"
    unfolding ix by (simp add: all_keys_def sample_keys_def dl)
  moreover have "columns t = map (\<lambda>(s, d). Scalar s) [(s, d)]" "attr_names t = None"
    by (simp_all add: t_def)
  ultimately have "merged_form level [(s, d)] t"
    using b unfolding merged_form_def by blast
  moreover have "index_names t = index_names h" by (simp add: t_def)
  ultimately show ?thesis using sc ix by blast
qed

lemma merge_loop_merged:
  assumes "merged_form level done m"
    and "index m = merged_labels (map (\<lambda>(s, d). sample_keys d level) done)"
    and "list_all (\<lambda>(s, d). case d level of None \<Rightarrow> False | Some h \<Rightarrow> level_histogram_ok h)
           (done @ rest)"
    and "distinct (map fst (done @ rest))"
  shows "\<exists>f. merge_loop level rest (Some m) = Inr f \<and> merged_form level (done @ rest) f \<and>
           index f = merged_labels (map (\<lambda>(s, d). sample_keys d level) (done @ rest))"
  using assms
proof (induction rest arbitrary: "done" m)
  case Nil
  then show ?case by simp
next
  case (Cons e rest)
  obtain s d where e: "e = (s, d)" by (cases e)
  from Cons.prems(3) e obtain h where h: "d level = Some h" "level_histogram_ok h"
    by (auto split: option.splits)
  from sample_column_merged [of d level h s, OF h] obtain t where
    t: "sample_column s d level = Inr t" "merged_form level [(s, d)] t" "index t = index h"
    by blast
  from Cons.prems(4) e have "fst ` set done \<inter> fst ` set [(s, d)] = {}" by auto
  from merge_outer_merged [OF Cons.prems(1) t(2) this]
  have mf: "merged_form level (done @ [(s, d)]) (merge_outer m t)"
    and ix: "index (merge_outer m t) = outer_labels (index m) (index t)"
    by simp_all
  have "distinct (sample_keys d' level)" if "(s', d') \<in> set done" for s' d'
  proof -
    from Cons.prems(3) that have "case d' level of None \<Rightarrow> False | Some h \<Rightarrow> level_histogram_ok h"
      by (auto simp: list_all_iff)
    then show ?thesis
      by (cases "d' level") (simp_all add: sample_keys_def level_histogram_ok_def)
  qed
  then have "\<forall>ix\<in>set (map (\<lambda>(s, d). sample_keys d level) done). distinct ix"
    by auto
  moreover from h have "distinct (index t)" by (simp add: t(3) level_histogram_ok_def)
  ultimately have "outer_labels (index m) (index t) =
      merged_labels (map (\<lambda>(s, d). sample_keys d level) done @ [index t])"
    unfolding Cons.prems(2) by (rule outer_labels_step)
  with ix h have ix': "index (merge_outer m t) =
      merged_labels (map (\<lambda>(s, d). sample_keys d level) (done @ [(s, d)]))"
    by (simp add: t(3) sample_keys_def)
  from Cons.prems(3) e have rest: "list_all (\<lambda>(s, d). case d level of None \<Rightarrow> False
      | Some h \<Rightarrow> level_histogram_ok h) ((done @ [(s, d)]) @ rest)" by simp
  from Cons.prems(4) e have dist: "distinct (map fst ((done @ [(s, d)]) @ rest))" by simp
  from Cons.IH [OF mf ix' rest dist] obtain f where
    f: "merge_loop level rest (Some (merge_outer m t)) = Inr f"
       "merged_form level ((done @ [(s, d)]) @ rest) f"
       "index f = merged_labels (map (\<lambda>(s, d). sample_keys d level) ((done @ [(s, d)]) @ rest))"
    by blast
  with t(1) e show ?case by simp
qed

lemma merge_loop_valid:
  assumes "valid_collection level entries"
  shows "\<exists>f. merge_loop level entries None = Inr f \<and> merged_form level entries f \<and>
           index f = merged_labels (map (\<lambda>(s, d). sample_keys d level) entries)"
proof -
  from assms obtain s d rest where e: "entries = (s, d) # rest"
    by (cases entries) (auto simp: valid_collection_def)
  from assms e obtain h where h: "d level = Some h" "level_histogram_ok h"
    by (auto simp: valid_collection_def split: option.splits)
  from sample_column_merged [of d level h s, OF h] obtain t where
    t: "sample_column s d level = Inr t" "merged_form level [(s, d)] t" "index t = index h"
    by blast
  from h have ix: "index t = merged_labels (map (\<lambda>(s, d). sample_keys d level) [(s, d)])"
    by (simp add: t(3) merged_labels_def sample_keys_def)
  from assms e have rest: "list_all (\<lambda>(s, d). case d level of None \<Rightarrow> False
      | Some h \<Rightarrow> level_histogram_ok h) ([(s, d)] @ rest)"
    and dist: "distinct (map fst ([(s, d)] @ rest))"
    by (simp_all add: valid_collection_def)
  from merge_loop_merged [OF t(2) ix rest dist] obtain f where
    f: "merge_loop level rest (Some t) = Inr f" "merged_form level ([(s, d)] @ rest) f"
       "index f = merged_labels (map (\<lambda>(s, d). sample_keys d level) ([(s, d)] @ rest))"
    by blast
  with t e h show ?thesis by simp
qed

lemma map_of_map_key: "k \<in> set ks \<Longrightarrow> map_of (map (\<lambda>k. (k, g k)) ks) k = Some (g k)"
  by (induction ks) auto

lemma cell_merged:
  assumes mf: "merged_form level entries f" and dist: "distinct (map fst entries)"
    and sd: "(s, d) \<in> set entries" and k: "k \<in> set (index f)"
  shows "cell f k (Scalar s) = sample_percent d level k"
proof -
  let ?row = "map (\<lambda>(s, d). sample_percent d level k) entries"
  from mf have b: "body f = merged_body level entries (index f)"
    and c: "columns f = map (\<lambda>(s, d). Scalar s) entries" and dk: "distinct (index f)"
    by (simp_all add: merged_form_def)
  have "body f = map (\<lambda>k. (k, map (\<lambda>(s, d). sample_percent d level k) entries)) (index f)"
    using b unfolding merged_body_def .
  then have row: "map_of (body f) k = Some ?row"
    using map_of_map_key [OF k, of "\<lambda>k. map (\<lambda>(s, d). sample_percent d level k) entries"]
    by (simp only:)
  from sd have "Scalar s \<in> (\<lambda>(s, d). Scalar s) ` set entries" by (rule rev_image_eqI) simp
  then have "Scalar s \<in> set (columns f)" by (simp only: c set_map)
  from position_Some_iff [OF this] obtain j where j: "position (Scalar s) (columns f) = Some j" ..
  from position_Some_less [OF j] have jl: "j < length (columns f)" and cj: "columns f ! j = Scalar s"
    by blast+
  from jl have jl: "j < length entries" by (simp only: c length_map)
  obtain s' d' where e: "entries ! j = (s', d')" by (cases "entries ! j")
  from cj jl e have "s' = s" by (simp add: c)
  moreover have "entries ! j \<in> set entries" using jl by (rule nth_mem)
  ultimately have "(s, d') \<in> set entries" using e by simp
  from eq_key_imp_eq_value [OF dist this sd] e \<open>s' = s\<close> have "entries ! j = (s, d)" by simp
  then have "cell_at ?row j = sample_percent d level k"
    using jl by (simp add: cell_at_def)
  with row j show ?thesis by (simp add: cell_def)
qed

section \<open>The claims about \<^verbatim>\<open>mergeAcrossSamples\<close>\<close>

lemma mergeAcrossSamples_loop:
  assumes "level \<in> set hier" "entries \<noteq> []"
  shows "mergeAcrossSamples hier (Dict entries) level = merge_loop level entries None"
  using assms by (cases entries) (simp_all add: mergeAcrossSamples_def validateSampleDictTaxHistDict_def)

text \<open>
  C2. For a valid collection and a level of the hierarchy, mergeAcrossSamples returns a table
  with one column per sample, in the order of the collection; its row labels are, without
  repetition, the union of the row labels of the histograms of all the samples; the cell of a
  row and a sample is the percent of the sample for the prefix, and null when the histogram
  of the sample has no such prefix.
\<close>

theorem mergeAcrossSamples_outer_union:
  assumes "valid_collection level entries" "level \<in> set hier"
  shows "\<exists>m. mergeAcrossSamples hier (Dict entries) level = Inr m \<and>
           columns m = map (\<lambda>(s, d). Scalar s) entries \<and>
           distinct (index m) \<and> set (index m) = all_keys level entries \<and>
           (\<forall>(s, d)\<in>set entries. \<forall>k\<in>set (index m).
              cell m k (Scalar s) = sample_percent d level k \<and>
              (k \<notin> set (sample_keys d level) \<longrightarrow> cell m k (Scalar s) = Null))"
proof -
  from assms(1) have ne: "entries \<noteq> []" and dist: "distinct (map fst entries)"
    by (simp_all add: valid_collection_def)
  from merge_loop_valid [OF assms(1)] obtain m where
    m: "merge_loop level entries None = Inr m" and mf: "merged_form level entries m"
    by blast
  have "cell m k (Scalar s) = sample_percent d level k \<and>
        (k \<notin> set (sample_keys d level) \<longrightarrow> cell m k (Scalar s) = Null)"
    if "(s, d) \<in> set entries" "k \<in> set (index m)" for s d k
    using cell_merged [OF mf dist that] sample_percent_Null [of k d level] by simp
  then have "\<forall>(s, d)\<in>set entries. \<forall>k\<in>set (index m).
      cell m k (Scalar s) = sample_percent d level k \<and>
      (k \<notin> set (sample_keys d level) \<longrightarrow> cell m k (Scalar s) = Null)"
    by blast
  moreover from mf have "columns m = map (\<lambda>(s, d). Scalar s) entries" "distinct (index m)"
    "set (index m) = all_keys level entries"
    by (simp_all add: merged_form_def)
  ultimately show ?thesis
    using m mergeAcrossSamples_loop [OF assms(2) ne] by simp
qed

theorem mergeAcrossSamples_outer_union_witness:
  "valid_collection ''kingdom'' example_entries \<and> ''kingdom'' \<in> set example_hier \<and>
   mergeAcrossSamples example_hier (Dict example_entries) ''kingdom'' =
     Inr \<lparr>columns = [Scalar ''s1'', Scalar ''s2''], index_names = [Some ''kingdom''],
          body = [(Scalar ''A'', [FloatV 60, FloatV 70]),
                  (Scalar ''B'', [FloatV 40, Null]),
                  (Scalar ''C'', [Null, FloatV 30])],
          attr_names = None\<rparr> \<and>
   all_keys ''kingdom'' example_entries = {Scalar ''A'', Scalar ''B'', Scalar ''C''}"
proof -
  have v: "valid_collection ''kingdom'' example_entries"
    by code_simp
  have l: "''kingdom'' \<in> set example_hier" by (simp add: example_hier_def)
  have e: "mergeAcrossSamples example_hier (Dict example_entries) ''kingdom'' =
     Inr \<lparr>columns = [Scalar ''s1'', Scalar ''s2''], index_names = [Some ''kingdom''],
          body = [(Scalar ''A'', [FloatV 60, FloatV 70]),
                  (Scalar ''B'', [FloatV 40, Null]),
                  (Scalar ''C'', [Null, FloatV 30])],
          attr_names = None\<rparr>"
    by code_simp
  from mergeAcrossSamples_outer_union [OF v l] e
  have "all_keys ''kingdom'' example_entries = {Scalar ''A'', Scalar ''B'', Scalar ''C''}"
    by (auto simp: index_def)
  with v l e show ?thesis by simp
qed

lemma sample_column_names:
  assumes "sample_column s d level = Inr t"
  shows "index_names t = sample_names d level" "attr_names t = None"
  using assms
  by (auto simp: sample_column_def sample_names_def drop_column_def rename_column_def
      split: option.splits sum.splits if_splits)

lemma merge_loop_names:
  assumes "merge_loop level rest acc = Inr f"
    and "\<forall>(s, d)\<in>set rest. sample_names d level = ns"
    and "\<forall>a. acc = Some a \<longrightarrow> index_names a = ns"
    and "rest \<noteq> [] \<or> acc \<noteq> None"
  shows "index_names f = ns"
  using assms
proof (induction rest arbitrary: acc)
  case Nil
  then show ?case by (cases acc) auto
next
  case (Cons e rest)
  obtain s d where e: "e = (s, d)" by (cases e)
  from Cons.prems(1) e obtain t where t: "sample_column s d level = Inr t"
    by (auto split: sum.splits)
  from sample_column_names(1) [OF t] Cons.prems(2) e have nt: "index_names t = ns" by simp
  from Cons.prems(2) have rest: "\<forall>(s, d)\<in>set rest. sample_names d level = ns" by simp
  show ?case
  proof (cases acc)
    case None
    with Cons.prems(1) e t have "merge_loop level rest (Some t) = Inr f" by simp
    from Cons.IH [OF this rest] nt show ?thesis by simp
  next
    case (Some a)
    with Cons.prems(1) e t have l: "merge_loop level rest (Some (merge_outer a t)) = Inr f" by simp
    from Some Cons.prems(3) nt have "index_names (merge_outer a t) = ns"
      by (simp add: merge_outer_def merged_names_def)
    with Cons.IH [OF l rest] show ?thesis by simp
  qed
qed

lemma valid_collection_mset:
  assumes "valid_collection level entries" "mset entries' = mset entries"
  shows "valid_collection level entries'"
proof -
  from assms(2) have s: "set entries' = set entries" by (rule mset_eq_setD)
  from assms(2) have "mset (map fst entries') = mset (map fst entries)" by simp
  then have "distinct (map fst entries') = distinct (map fst entries)"
    by (rule mset_eq_imp_distinct_iff)
  moreover from assms(1) s have "entries' \<noteq> []"
    by (auto simp: valid_collection_def)
  ultimately show ?thesis
    using assms(1) s by (simp add: valid_collection_def list_all_iff)
qed

lemma reorder_merged:
  assumes mf: "merged_form level entries m" and dist: "distinct (map fst entries)"
    and s: "set entries' = set entries"
  shows "body (reorder_columns (map (\<lambda>(s, d). Scalar s) entries') m) =
           merged_body level entries' (index m)"
proof -
  from mf have b: "body m = merged_body level entries (index m)" by (simp add: merged_form_def)
  have "map (\<lambda>(k, r). (k, map (\<lambda>c. cell m k c) (map (\<lambda>(s, d). Scalar s) entries')))
          (merged_body level entries ks) =
        map (\<lambda>k. (k, map (\<lambda>(s, d). cell m k (Scalar s)) entries')) ks" for ks
    by (simp add: merged_body_def comp_def case_prod_unfold)
  then have "body (reorder_columns (map (\<lambda>(s, d). Scalar s) entries') m) =
      map (\<lambda>k. (k, map (\<lambda>(s, d). cell m k (Scalar s)) entries')) (index m)"
    using b by (simp add: reorder_columns_def)
  also have "\<dots> = map (\<lambda>k. (k, map (\<lambda>(s, d). sample_percent d level k) entries')) (index m)"
  proof (rule map_cong [OF refl])
    fix k assume k: "k \<in> set (index m)"
    have "map (\<lambda>(s, d). cell m k (Scalar s)) entries' =
          map (\<lambda>(s, d). sample_percent d level k) entries'"
    proof (rule map_cong [OF refl])
      fix e assume "e \<in> set entries'"
      with s obtain s' d' where e: "e = (s', d')" "(s', d') \<in> set entries" by (cases e) auto
      from cell_merged [OF mf dist e(2) k] e(1)
      show "(case e of (s, d) \<Rightarrow> cell m k (Scalar s)) = (case e of (s, d) \<Rightarrow> sample_percent d level k)"
        by simp
    qed
    then show "(k, map (\<lambda>(s, d). cell m k (Scalar s)) entries') =
        (k, map (\<lambda>(s, d). sample_percent d level k) entries')" by simp
  qed
  finally show ?thesis by (simp add: merged_body_def)
qed

text \<open>
  C8. For a valid collection whose histograms at the level carry the same index names, and
  for any other iteration order of the same samples, the table that mergeAcrossSamples
  returns for the second order is the table for the first order with its columns put in the
  second order; the columns of each table follow the iteration order.
\<close>

theorem mergeAcrossSamples_iteration_order:
  assumes v: "valid_collection level entries" and u: "uniform_names level entries"
    and p: "mset entries' = mset entries" and l: "level \<in> set hier"
  shows "\<exists>m m'. mergeAcrossSamples hier (Dict entries) level = Inr m \<and>
           mergeAcrossSamples hier (Dict entries') level = Inr m' \<and>
           columns m = map (\<lambda>(s, d). Scalar s) entries \<and>
           columns m' = map (\<lambda>(s, d). Scalar s) entries' \<and>
           m' = reorder_columns (columns m') m"
proof -
  from valid_collection_mset [OF v p] have v': "valid_collection level entries'" .
  from v v' have ne: "entries \<noteq> []" "entries' \<noteq> []" and dist: "distinct (map fst entries)"
    by (simp_all add: valid_collection_def)
  from p have s: "set entries' = set entries" by (rule mset_eq_setD)
  from merge_loop_valid [OF v] obtain m where
    m: "merge_loop level entries None = Inr m" and mf: "merged_form level entries m"
    and mi: "index m = merged_labels (map (\<lambda>(s, d). sample_keys d level) entries)"
    by blast
  from merge_loop_valid [OF v'] obtain m' where
    m': "merge_loop level entries' None = Inr m'" and mf': "merged_form level entries' m'"
    and mi': "index m' = merged_labels (map (\<lambda>(s, d). sample_keys d level) entries')"
    by blast
  from p have "mset (map (\<lambda>(s, d). sample_keys d level) entries') =
      mset (map (\<lambda>(s, d). sample_keys d level) entries)"
    by simp
  then have ix: "index m' = index m"
    unfolding mi mi' by (rule merged_labels_mset)
  define ns where "ns = sample_names (snd (hd entries)) level"
  from u have un: "\<forall>(s, d)\<in>set entries. sample_names d level = ns"
    by (auto simp: uniform_names_def list_all_iff ns_def)
  with s have un': "\<forall>(s, d)\<in>set entries'. sample_names d level = ns" by simp
  from merge_loop_names [OF m un] ne have nm: "index_names m = ns" by simp
  from merge_loop_names [OF m' un'] ne have nm': "index_names m' = ns" by simp
  let ?r = "reorder_columns (map (\<lambda>(s, d). Scalar s) entries') m"
  from mf mf' have c: "columns m = map (\<lambda>(s, d). Scalar s) entries"
    and c': "columns m' = map (\<lambda>(s, d). Scalar s) entries'"
    and a: "attr_names m = None" "attr_names m' = None"
    and b': "body m' = merged_body level entries' (index m')"
    by (simp_all add: merged_form_def)
  have "m' = ?r"
  proof (rule frame.equality)
    show "columns m' = columns ?r" by (simp add: c' reorder_columns_def)
    show "index_names m' = index_names ?r" by (simp add: nm nm' reorder_columns_def)
    show "body m' = body ?r"
      unfolding reorder_merged [OF mf dist s] b' ix ..
    show "attr_names m' = attr_names ?r" by (simp add: a reorder_columns_def)
    show "frame.more m' = frame.more ?r" by simp
  qed
  with c c' m m' show ?thesis
    using mergeAcrossSamples_loop [OF l ne(1)] mergeAcrossSamples_loop [OF l ne(2)] by simp
qed

theorem mergeAcrossSamples_iteration_order_witness:
  "valid_collection ''kingdom'' example_entries \<and> uniform_names ''kingdom'' example_entries \<and>
   mset (rev example_entries) = mset example_entries \<and> ''kingdom'' \<in> set example_hier \<and>
   mergeAcrossSamples example_hier (Dict example_entries) ''kingdom'' =
     Inr \<lparr>columns = [Scalar ''s1'', Scalar ''s2''], index_names = [Some ''kingdom''],
          body = [(Scalar ''A'', [FloatV 60, FloatV 70]),
                  (Scalar ''B'', [FloatV 40, Null]),
                  (Scalar ''C'', [Null, FloatV 30])],
          attr_names = None\<rparr> \<and>
   mergeAcrossSamples example_hier (Dict (rev example_entries)) ''kingdom'' =
     Inr \<lparr>columns = [Scalar ''s2'', Scalar ''s1''], index_names = [Some ''kingdom''],
          body = [(Scalar ''A'', [FloatV 70, FloatV 60]),
                  (Scalar ''B'', [Null, FloatV 40]),
                  (Scalar ''C'', [FloatV 30, Null])],
          attr_names = None\<rparr>"
proof -
  let ?m = "\<lparr>columns = [Scalar ''s1'', Scalar ''s2''], index_names = [Some ''kingdom''],
          body = [(Scalar ''A'', [FloatV 60, FloatV 70]),
                  (Scalar ''B'', [FloatV 40, Null]),
                  (Scalar ''C'', [Null, FloatV 30])],
          attr_names = None\<rparr>"
  have v: "valid_collection ''kingdom'' example_entries"
    and u: "uniform_names ''kingdom'' example_entries"
    by code_simp+
  have p: "mset (rev example_entries) = mset example_entries" by simp
  have l: "''kingdom'' \<in> set example_hier" by (simp add: example_hier_def)
  have e: "mergeAcrossSamples example_hier (Dict example_entries) ''kingdom'' = Inr ?m"
    by code_simp
  from mergeAcrossSamples_iteration_order [OF v u p l] e
  have "mergeAcrossSamples example_hier (Dict (rev example_entries)) ''kingdom'' =
      Inr (reorder_columns (map (\<lambda>(s, d). Scalar s) (rev example_entries)) ?m)"
    by auto
  also have "reorder_columns (map (\<lambda>(s, d). Scalar s) (rev example_entries)) ?m =
      \<lparr>columns = [Scalar ''s2'', Scalar ''s1''], index_names = [Some ''kingdom''],
          body = [(Scalar ''A'', [FloatV 70, FloatV 60]),
                  (Scalar ''B'', [Null, FloatV 40]),
                  (Scalar ''C'', [FloatV 30, Null])],
          attr_names = None\<rparr>"
    by (simp add: reorder_columns_def example_entries_def cell_def cell_at_def)
  finally show ?thesis using v u p l e by simp
qed

section \<open>The tables of the caller\<close>

lemma keeps_refl: "keeps n \<sigma> \<sigma>"
  by (simp add: keeps_def)

lemma keeps_trans: "keeps n a b \<Longrightarrow> keeps n b c \<Longrightarrow> keeps n a c"
  by (simp add: keeps_def)

lemma keeps_length: "keeps n \<sigma> \<sigma>' \<Longrightarrow> n \<le> length (frames \<sigma>) \<Longrightarrow> n \<le> length (frames \<sigma>')"
  by (simp add: keeps_def)

lemma keeps_alloc:
  assumes "alloc f \<sigma> = (r, \<sigma>')" "n \<le> length (frames \<sigma>)"
  shows "keeps n \<sigma> \<sigma>'" "n \<le> r"
  using assms by (auto simp: alloc_def keeps_def)

lemma keeps_update: "n \<le> r \<Longrightarrow> keeps n \<sigma> (update r g \<sigma>)"
  by (simp add: update_def keeps_def)

lemma level_histogram_h_keeps:
  assumes "level_histogram_h srt hier df i \<sigma> = (\<sigma>', res)" "n \<le> length (frames \<sigma>)"
  shows "keeps n \<sigma> \<sigma>'"
proof (cases "groupby_size (take (i + 1) hier) (tables \<sigma> ! df)")
  case (Inl e)
  with assms show ?thesis by (simp add: level_histogram_h_def keeps_refl)
next
  case (Inr s)
  obtain r0 \<sigma>0 where a0: "alloc (DataFrame_of ''count'' s) \<sigma> = (r0, \<sigma>0)" by fastforce
  note k0 = keeps_alloc [OF a0 assms(2)]
  note n0 = keeps_length [OF k0(1) assms(2)]
  show ?thesis
  proof (cases "sort_by srt ''count'' (frames \<sigma>0 ! r0)")
    case (Inl e)
    with assms Inr a0 k0 show ?thesis by (simp add: level_histogram_h_def)
  next
    case h: (Inr h)
    obtain r1 \<sigma>1 where a1: "alloc h \<sigma>0 = (r1, \<sigma>1)" by fastforce
    note k1 = keeps_alloc [OF a1 n0]
    note n1 = keeps_length [OF k1(1) n0]
    obtain r2 \<sigma>2 where a2: "alloc (apply_frame (frames \<sigma>1 ! r1)) \<sigma>1 = (r2, \<sigma>2)" by fastforce
    note k2 = keeps_alloc [OF a2 n1]
    from assms(1) Inr a0 h a1 a2
    have "\<sigma>' = update r1 (set_column ''percent'' (column_cells (frames \<sigma>2 ! r2) 0)) \<sigma>2"
      by (simp add: level_histogram_h_def)
    with keeps_update [OF k1(2)] have "keeps n \<sigma>2 \<sigma>'" by simp
    with k0(1) k1(1) k2(1) show ?thesis by (blast intro: keeps_trans)
  qed
qed

lemma computeAll_loop_h_keeps:
  "computeAll_loop_h srt hier df js d \<sigma> = (\<sigma>', res) \<Longrightarrow> n \<le> length (frames \<sigma>) \<Longrightarrow> keeps n \<sigma> \<sigma>'"
proof (induction js arbitrary: d \<sigma>)
  case Nil
  then show ?case by (simp add: keeps_refl)
next
  case (Cons i js)
  obtain \<sigma>1 r where l: "level_histogram_h srt hier df i \<sigma> = (\<sigma>1, r)" by fastforce
  note k = level_histogram_h_keeps [OF l Cons.prems(2)]
  show ?case
  proof (cases r)
    case (Inl e)
    with Cons.prems(1) l k show ?thesis by simp
  next
    case (Inr a)
    with Cons.prems(1) l
    have "computeAll_loop_h srt hier df js (d(hier ! i \<mapsto> a)) \<sigma>1 = (\<sigma>', res)" by simp
    from Cons.IH [OF this keeps_length [OF k Cons.prems(2)]] k show ?thesis
      by (blast intro: keeps_trans)
  qed
qed

lemma sample_column_h_keeps:
  assumes "sample_column_h d level \<sigma> = (\<sigma>', res)" "n \<le> length (frames \<sigma>)"
  shows "keeps n \<sigma> \<sigma>'" "res = Inr r \<Longrightarrow> n \<le> r"
  using assms
  by (auto simp: sample_column_h_def keeps_refl alloc_def keeps_def
      split: option.splits sum.splits prod.splits)

lemma merge_loop_h_keeps:
  "merge_loop_h level rest acc \<sigma> = (\<sigma>', res) \<Longrightarrow> n \<le> length (frames \<sigma>) \<Longrightarrow> keeps n \<sigma> \<sigma>'"
proof (induction rest arbitrary: acc \<sigma>)
  case Nil
  then show ?case by (cases acc) (auto simp: keeps_refl)
next
  case (Cons e rest)
  obtain s d where e: "e = (s, d)" by (cases e)
  obtain \<sigma>1 r where sc: "sample_column_h d level \<sigma> = (\<sigma>1, r)" by fastforce
  note k1 = sample_column_h_keeps [OF sc Cons.prems(2)]
  note n1 = keeps_length [OF k1(1) Cons.prems(2)]
  show ?case
  proof (cases r)
    case (Inl err)
    with Cons.prems(1) e sc k1(1) show ?thesis by simp
  next
    case (Inr tmpDF)
    from k1(2) [OF Inr] have fresh: "n \<le> tmpDF" .
    show ?thesis
    proof (cases acc)
      case None
      obtain m \<sigma>2 where a: "alloc (rename_column ''percent'' s (frames \<sigma>1 ! tmpDF)) \<sigma>1 = (m, \<sigma>2)"
        by fastforce
      note k2 = keeps_alloc [OF a n1]
      from Cons.prems(1) e sc Inr None a
      have "merge_loop_h level rest (Some m) \<sigma>2 = (\<sigma>', res)" by simp
      from Cons.IH [OF this keeps_length [OF k2(1) n1]] k1(1) k2(1) show ?thesis
        by (blast intro: keeps_trans)
    next
      case (Some acc')
      let ?\<sigma>2 = "update tmpDF (rename_column ''percent'' s) \<sigma>1"
      have k2: "keeps n \<sigma>1 ?\<sigma>2" by (rule keeps_update [OF fresh])
      note n2 = keeps_length [OF k2 n1]
      obtain m \<sigma>3 where a: "alloc (merge_outer (frames ?\<sigma>2 ! acc') (frames ?\<sigma>2 ! tmpDF)) ?\<sigma>2 = (m, \<sigma>3)"
        by fastforce
      note k3 = keeps_alloc [OF a n2]
      from Cons.prems(1) e sc Inr Some a
      have "merge_loop_h level rest (Some m) \<sigma>3 = (\<sigma>', res)" by simp
      from Cons.IH [OF this keeps_length [OF k3(1) n2]] k1(1) k2 k3(1) show ?thesis
        by (blast intro: keeps_trans)
    qed
  qed
qed

lemma mergeAcrossSamples_h_keeps:
  assumes "mergeAcrossSamples_h hier c level \<sigma> = (\<sigma>', res)" "n \<le> length (frames \<sigma>)"
  shows "keeps n \<sigma> \<sigma>'"
  using assms merge_loop_h_keeps [of level _ None \<sigma> \<sigma>' res n]
  by (auto simp: mergeAcrossSamples_h_def keeps_refl split: if_splits sum.splits collection.splits)

lemma merge_level_h_keeps:
  assumes "merge_level_h hier c md level \<sigma> = (\<sigma>', res)" "n \<le> length (frames \<sigma>)"
  shows "keeps n \<sigma> \<sigma>'"
proof -
  obtain \<sigma>1 r where m: "mergeAcrossSamples_h hier c level \<sigma> = (\<sigma>1, r)" by fastforce
  note k1 = mergeAcrossSamples_h_keeps [OF m assms(2)]
  note n1 = keeps_length [OF k1 assms(2)]
  show ?thesis
  proof (cases r)
    case (Inl e)
    with assms(1) m k1 show ?thesis by (simp add: merge_level_h_def)
  next
    case (Inr merged)
    obtain t \<sigma>2 where a2: "alloc (transpose_frame (frames \<sigma>1 ! merged)) \<sigma>1 = (t, \<sigma>2)" by fastforce
    note k2 = keeps_alloc [OF a2 n1]
    note n2 = keeps_length [OF k2(1) n1]
    let ?\<sigma>3 = "update t (\<lambda>f. f\<lparr>index_names := [Some ''sample'']\<rparr>) \<sigma>2"
    have k3: "keeps n \<sigma>2 ?\<sigma>3" by (rule keeps_update [OF k2(2)])
    note n3 = keeps_length [OF k3 n2]
    have k13: "keeps n \<sigma> ?\<sigma>3" using k1 k2(1) k3 by (blast intro: keeps_trans)
    show ?thesis
    proof (cases md)
      case MetaNone
      with assms(1) m Inr a2 k13 show ?thesis by (simp add: merge_level_h_def)
    next
      case (MetaOther v)
      with assms(1) m Inr a2 k13 show ?thesis by (simp add: merge_level_h_def)
    next
      case (MetaFrame mref)
      obtain j \<sigma>4 where a4: "alloc (merge_left (frames ?\<sigma>3 ! t) (frames ?\<sigma>3 ! mref)) ?\<sigma>3 = (j, \<sigma>4)"
        by fastforce
      note k4 = keeps_alloc [OF a4 n3]
      note n4 = keeps_length [OF k4(1) n3]
      obtain tmpDF \<sigma>5 where a5: "alloc (transpose_frame (frames \<sigma>4 ! j)) \<sigma>4 = (tmpDF, \<sigma>5)"
        by fastforce
      note k5 = keeps_alloc [OF a5 n4]
      have k15: "keeps n \<sigma> \<sigma>5" using k13 k4(1) k5(1) by (blast intro: keeps_trans)
      show ?thesis
      proof (cases "label_index hier level (frames \<sigma>5 ! tmpDF)")
        case (Inl e)
        with assms(1) m Inr a2 MetaFrame a4 a5 k15 show ?thesis
          by (simp add: merge_level_h_def)
      next
        case f: (Inr f)
        with assms(1) m Inr a2 MetaFrame a4 a5 have "\<sigma>' = update tmpDF (\<lambda>old. f) \<sigma>5"
          by (simp add: merge_level_h_def)
        with keeps_update [OF k5(2)] k15 show ?thesis by (blast intro: keeps_trans)
      qed
    qed
  qed
qed

lemma taxLevels_loop_h_keeps:
  "taxLevels_loop_h hier c md ls d \<sigma> = (\<sigma>', res) \<Longrightarrow> n \<le> length (frames \<sigma>) \<Longrightarrow> keeps n \<sigma> \<sigma>'"
proof (induction ls arbitrary: d \<sigma>)
  case Nil
  then show ?case by (simp add: keeps_refl)
next
  case (Cons l ls)
  obtain \<sigma>1 r where m: "merge_level_h hier c md l \<sigma> = (\<sigma>1, r)" by fastforce
  note k = merge_level_h_keeps [OF m Cons.prems(2)]
  show ?case
  proof (cases r)
    case (Inl e)
    with Cons.prems(1) m k show ?thesis by simp
  next
    case (Inr a)
    with Cons.prems(1) m
    have "taxLevels_loop_h hier c md ls (d(l \<mapsto> a)) \<sigma>1 = (\<sigma>', res)" by simp
    from Cons.IH [OF this keeps_length [OF k Cons.prems(2)]] k show ?thesis
      by (blast intro: keeps_trans)
  qed
qed

lemma mergeAcrossSamplesTaxLevels_h_keeps:
  assumes "mergeAcrossSamplesTaxLevels_h hier c md \<sigma> = (\<sigma>', res)" "n \<le> length (frames \<sigma>)"
  shows "keeps n \<sigma> \<sigma>'"
  using assms taxLevels_loop_h_keeps [of hier c md hier Map.empty \<sigma> \<sigma>' res n]
  by (auto simp: mergeAcrossSamplesTaxLevels_h_def keeps_refl split: sum.splits metadata.splits)

lemma keeps_unchanged: "keeps (length (frames \<sigma>)) \<sigma> \<sigma>' \<Longrightarrow> unchanged \<sigma> \<sigma>'"
  by (simp add: keeps_def unchanged_def)

text \<open>
  C9. Whatever their arguments, and also when they fail, computeAll, mergeAcrossSamples and
  mergeAcrossSamplesTaxLevels leave every table that the store held before the call as it
  was: the sample tables, the histograms of the collection and the metadata table. The
  tables that the program changes in place are tables that the same call has made.
\<close>

theorem caller_tables_unchanged:
  "unchanged \<sigma> (fst (computeAll_h srt hier df \<sigma>)) \<and>
   unchanged \<sigma> (fst (mergeAcrossSamples_h hier c taxonomyLevel \<sigma>)) \<and>
   unchanged \<sigma> (fst (mergeAcrossSamplesTaxLevels_h hier c md \<sigma>))"
proof (intro conjI)
  show "unchanged \<sigma> (fst (computeAll_h srt hier df \<sigma>))"
    unfolding computeAll_h_def
    by (rule keeps_unchanged) (rule computeAll_loop_h_keeps [OF surjective_pairing order_refl])
  show "unchanged \<sigma> (fst (mergeAcrossSamples_h hier c taxonomyLevel \<sigma>))"
    by (rule keeps_unchanged) (rule mergeAcrossSamples_h_keeps [OF surjective_pairing order_refl])
  show "unchanged \<sigma> (fst (mergeAcrossSamplesTaxLevels_h hier c md \<sigma>))"
    by (rule keeps_unchanged) (rule mergeAcrossSamplesTaxLevels_h_keeps [OF surjective_pairing order_refl])
qed

theorem caller_tables_unchanged_witness:
  "length (frames (fst (mergeAcrossSamples_h example_hier example_refs ''kingdom'' example_store))) = 6 \<and>
   snd (mergeAcrossSamples_h example_hier example_refs ''kingdom'' example_store) = Inr 5 \<and>
   frames (fst (mergeAcrossSamples_h example_hier example_refs ''kingdom'' example_store)) ! 4 =
     \<lparr>columns = [Scalar ''s2''], index_names = [Some ''kingdom''],
      body = [(Scalar ''A'', [FloatV 70]), (Scalar ''C'', [FloatV 30])], attr_names = None\<rparr> \<and>
   take 2 (frames (fst (mergeAcrossSamples_h example_hier example_refs ''kingdom'' example_store))) =
     [example_hist1, example_hist2] \<and>
   columns example_hist2 = [Scalar ''count'', Scalar ''percent'']"
proof -
  let ?\<sigma> = "fst (mergeAcrossSamples_h example_hier example_refs ''kingdom'' example_store)"
  have "length (frames ?\<sigma>) = 6"
    and "snd (mergeAcrossSamples_h example_hier example_refs ''kingdom'' example_store) = Inr 5"
    and "frames ?\<sigma> ! 4 =
     \<lparr>columns = [Scalar ''s2''], index_names = [Some ''kingdom''],
      body = [(Scalar ''A'', [FloatV 70]), (Scalar ''C'', [FloatV 30])], attr_names = None\<rparr>"
    by code_simp+
  moreover have "take 2 (frames ?\<sigma>) = [example_hist1, example_hist2]"
  proof -
    from caller_tables_unchanged [of example_store stable_argsort example_hier 0 example_refs
        "''kingdom''" MetaNone]
    have "take (length (frames example_store)) (frames ?\<sigma>) = frames example_store"
      unfolding unchanged_def by blast
    moreover have "frames example_store = [example_hist1, example_hist2]"
      by (simp add: example_store_def)
    ultimately show ?thesis by (simp add: numeral_2_eq_2)
  qed
  moreover have "columns example_hist2 = [Scalar ''count'', Scalar ''percent'']"
    by (simp add: example_hist2_def)
  ultimately show ?thesis by simp
qed

section \<open>The functions over the store compute the tables of the functions over values\<close>

lemma keeps_nth: "keeps n \<sigma> \<sigma>' \<Longrightarrow> r < n \<Longrightarrow> frames \<sigma>' ! r = frames \<sigma> ! r"
  unfolding keeps_def by (metis nth_take)

lemma sample_column_h_value:
  assumes sc: "sample_column_h d level \<sigma> = (\<sigma>1, res)"
    and k: "keeps n \<sigma>0 \<sigma>" and n: "n \<le> length (frames \<sigma>0)" and d: "\<forall>r\<in>ran d. r < n"
  shows "case res of
           Inl e \<Rightarrow> sample_column s (deref_dict \<sigma>0 d) level = Inl e
         | Inr t \<Rightarrow> \<exists>f. t = length (frames \<sigma>) \<and> frames \<sigma>1 = frames \<sigma> @ [f] \<and>
                    tables \<sigma>1 = tables \<sigma> \<and>
                    sample_column s (deref_dict \<sigma>0 d) level = Inr (rename_column ''percent'' s f)"
proof (cases "d level")
  case None
  with sc show ?thesis by (auto simp: sample_column_h_def sample_column_def deref_dict_def)
next
  case (Some h)
  then have "h \<in> ran d" by (auto simp: ran_def)
  with d have "h < n" by blast
  from keeps_nth [OF k this] have rd: "frames \<sigma> ! h = frames \<sigma>0 ! h" .
  show ?thesis
  proof (cases "drop_column ''count'' (frames \<sigma>0 ! h)")
    case (Inl e)
    with sc Some rd show ?thesis
      by (auto simp: sample_column_h_def sample_column_def deref_dict_def)
  next
    case (Inr t)
    with sc Some rd show ?thesis
      by (auto simp: sample_column_h_def sample_column_def deref_dict_def alloc_def)
  qed
qed

lemma merge_loop_h_value:
  assumes "merge_loop_h level rest acc \<sigma> = (\<sigma>', res)"
    and "keeps n \<sigma>0 \<sigma>" and "n \<le> length (frames \<sigma>0)"
    and "\<forall>(s, d)\<in>set rest. \<forall>r\<in>ran d. r < n"
    and "\<forall>m. acc = Some m \<longrightarrow> m < length (frames \<sigma>)"
  shows "read_result (\<sigma>', res) =
           merge_loop level (deref_entries \<sigma>0 rest) (map_option (\<lambda>m. frames \<sigma> ! m) acc)"
  using assms
proof (induction rest arbitrary: acc \<sigma>)
  case Nil
  then show ?case by (cases acc) (auto simp: read_result_def deref_entries_def)
next
  case (Cons e rest)
  obtain s d where e: "e = (s, d)" by (cases e)
  obtain \<sigma>1 r where sc: "sample_column_h d level \<sigma> = (\<sigma>1, r)" by fastforce
  from Cons.prems(4) e have dr: "\<forall>r\<in>ran d. r < n"
    and rest: "\<forall>(s, d)\<in>set rest. \<forall>r\<in>ran d. r < n" by auto
  note v = sample_column_h_value [OF sc Cons.prems(2,3) dr, of s]
  have de: "deref_entries \<sigma>0 (e # rest) = (s, deref_dict \<sigma>0 d) # deref_entries \<sigma>0 rest"
    by (simp add: deref_entries_def e)
  show ?case
  proof (cases r)
    case (Inl err)
    with v have pv: "sample_column s (deref_dict \<sigma>0 d) level = Inl err" by simp
    from Cons.prems(1) e sc Inl have "res = Inl err" by simp
    with pv show ?thesis by (simp add: de read_result_def)
  next
    case (Inr t)
    with v obtain f where t: "t = length (frames \<sigma>)" and f1: "frames \<sigma>1 = frames \<sigma> @ [f]"
      and t1: "tables \<sigma>1 = tables \<sigma>"
      and pv: "sample_column s (deref_dict \<sigma>0 d) level = Inr (rename_column ''percent'' s f)"
      by auto
    have ft: "frames \<sigma>1 ! t = f" by (simp add: f1 t)
    have k1: "keeps n \<sigma>0 \<sigma>1"
      using sample_column_h_keeps(1) [OF sc keeps_length [OF Cons.prems(2,3)]] Cons.prems(2)
      by (blast intro: keeps_trans)
    show ?thesis
    proof (cases acc)
      case None
      obtain m \<sigma>2 where a: "alloc (rename_column ''percent'' s f) \<sigma>1 = (m, \<sigma>2)"
        by fastforce
      then have m: "m = length (frames \<sigma>1)"
        and f2: "frames \<sigma>2 = frames \<sigma>1 @ [rename_column ''percent'' s f]"
        and t2: "tables \<sigma>2 = tables \<sigma>1"
        by (auto simp: alloc_def)
      have k2: "keeps n \<sigma>0 \<sigma>2"
        using k1 keeps_alloc(1) [OF a] keeps_length [OF k1 Cons.prems(3)] by (blast intro: keeps_trans)
      have rd: "frames \<sigma>2 ! m = rename_column ''percent'' s f"
        by (simp add: f2 m)
      from Cons.prems(1) e sc Inr None a
      have "merge_loop_h level rest (Some m) \<sigma>2 = (\<sigma>', res)" by (simp add: ft)
      from Cons.IH [OF this k2 Cons.prems(3) rest] m f2
      have "read_result (\<sigma>', res) = merge_loop level (deref_entries \<sigma>0 rest) (Some (frames \<sigma>2 ! m))"
        by simp
      with pv None rd show ?thesis by (simp add: de)
    next
      case (Some acc')
      with Cons.prems(5) have al: "acc' < length (frames \<sigma>)" by simp
      let ?\<sigma>2 = "update t (rename_column ''percent'' s) \<sigma>1"
      have f2: "frames ?\<sigma>2 = frames \<sigma> @ [rename_column ''percent'' s f]"
        by (simp add: update_def f1 t)
      have "n \<le> t" using keeps_length [OF Cons.prems(2,3)] t by simp
      then have "keeps n \<sigma>1 ?\<sigma>2" by (rule keeps_update)
      with k1 have k2: "keeps n \<sigma>0 ?\<sigma>2" by (blast intro: keeps_trans)
      have ra: "frames ?\<sigma>2 ! acc' = frames \<sigma> ! acc'"
        using al by (simp add: f2 nth_append)
      have rt: "frames ?\<sigma>2 ! t = rename_column ''percent'' s f"
        unfolding f2 by (simp add: t)
      obtain m \<sigma>3 where a: "alloc (merge_outer (frames ?\<sigma>2 ! acc') (frames ?\<sigma>2 ! t)) ?\<sigma>2 = (m, \<sigma>3)"
        by fastforce
      then have m: "m = length (frames ?\<sigma>2)"
        and f3: "frames \<sigma>3 = frames ?\<sigma>2 @ [merge_outer (frames ?\<sigma>2 ! acc') (frames ?\<sigma>2 ! t)]"
        by (auto simp: alloc_def)
      have k3: "keeps n \<sigma>0 \<sigma>3"
        using k2 keeps_alloc(1) [OF a] keeps_length [OF k2 Cons.prems(3)] by (blast intro: keeps_trans)
      have rd: "frames \<sigma>3 ! m = merge_outer (frames \<sigma> ! acc') (rename_column ''percent'' s f)"
        by (simp add: f3 m ra rt)
      from Cons.prems(1) e sc Inr Some a
      have "merge_loop_h level rest (Some m) \<sigma>3 = (\<sigma>', res)" by simp
      from Cons.IH [OF this k3 Cons.prems(3) rest] m f3
      have "read_result (\<sigma>', res) = merge_loop level (deref_entries \<sigma>0 rest) (Some (frames \<sigma>3 ! m))"
        by simp
      with pv Some rd show ?thesis by (simp add: de)
    qed
  qed
qed

lemma validate_deref:
  "validateSampleDictTaxHistDict (deref \<sigma> c) = validateSampleDictTaxHistDict c"
  by (cases c) (simp_all add: deref_def validateSampleDictTaxHistDict_def deref_entries_def)

lemma mergeAcrossSamples_h_value:
  assumes k: "keeps n \<sigma>0 \<sigma>" and n: "n \<le> length (frames \<sigma>0)"
    and c: "\<forall>entries. c = Dict entries \<longrightarrow> (\<forall>(s, d)\<in>set entries. \<forall>r\<in>ran d. r < n)"
  shows "read_result (mergeAcrossSamples_h hier c level \<sigma>) =
           mergeAcrossSamples hier (deref \<sigma>0 c) level"
proof (cases c)
  case (NotDict v)
  then show ?thesis
    by (simp add: mergeAcrossSamples_h_def mergeAcrossSamples_def read_result_def deref_def
        validateSampleDictTaxHistDict_def)
next
  case (Dict entries)
  with c have r: "\<forall>(s, d)\<in>set entries. \<forall>r\<in>ran d. r < n" by simp
  have "read_result (fst (merge_loop_h level entries None \<sigma>), snd (merge_loop_h level entries None \<sigma>)) =
        merge_loop level (deref_entries \<sigma>0 entries) (map_option (\<lambda>m. frames \<sigma> ! m) None)"
    by (rule merge_loop_h_value [OF surjective_pairing k n r]) simp
  then have "read_result (merge_loop_h level entries None \<sigma>) =
        merge_loop level (deref_entries \<sigma>0 entries) None"
    by simp
  with Dict show ?thesis
    by (simp add: mergeAcrossSamples_h_def mergeAcrossSamples_def read_result_def deref_def
        validateSampleDictTaxHistDict_def deref_entries_def)
qed

lemma merge_level_h_value:
  assumes k: "keeps n \<sigma>0 \<sigma>" and n: "n \<le> length (frames \<sigma>0)"
    and c: "\<forall>entries. c = Dict entries \<longrightarrow> (\<forall>(s, d)\<in>set entries. \<forall>r\<in>ran d. r < n)"
    and md: "\<forall>m. md = MetaFrame m \<longrightarrow> m < n"
    and res: "merge_level_h hier c md level \<sigma> = (\<sigma>', res)"
  shows "read_result (\<sigma>', res) = merge_level hier (deref \<sigma>0 c) (deref_metadata \<sigma>0 md) level"
    and "\<forall>r. res = Inr r \<longrightarrow> r < length (frames \<sigma>')"
proof -
  obtain \<sigma>1 r where m: "mergeAcrossSamples_h hier c level \<sigma> = (\<sigma>1, r)" by fastforce
  from mergeAcrossSamples_h_value [OF k n c, of hier level] m
  have pv: "read_result (\<sigma>1, r) = mergeAcrossSamples hier (deref \<sigma>0 c) level" by simp
  note n' = keeps_length [OF k n]
  have k1: "keeps n \<sigma>0 \<sigma>1"
    using mergeAcrossSamples_h_keeps [OF m n'] k by (blast intro: keeps_trans)
  have "read_result (\<sigma>', res) = merge_level hier (deref \<sigma>0 c) (deref_metadata \<sigma>0 md) level \<and>
        (\<forall>r. res = Inr r \<longrightarrow> r < length (frames \<sigma>'))"
  proof (cases r)
    case (Inl e)
    with pv have "mergeAcrossSamples hier (deref \<sigma>0 c) level = Inl e"
      by (simp add: read_result_def)
    moreover from res m Inl have "res = Inl e" by (simp add: merge_level_h_def)
    ultimately show ?thesis by (simp add: merge_level_def read_result_def)
  next
    case (Inr merged)
    define M where "M = frames \<sigma>1 ! merged"
    from pv Inr have pm: "mergeAcrossSamples hier (deref \<sigma>0 c) level = Inr M"
      by (simp add: read_result_def M_def)
    define T where "T = (transpose_frame M)\<lparr>index_names := [Some ''sample'']\<rparr>"
    define t where "t = length (frames \<sigma>1)"
    define \<sigma>3 where "\<sigma>3 = \<sigma>1\<lparr>frames := frames \<sigma>1 @ [T]\<rparr>"
    have a2: "alloc (transpose_frame (frames \<sigma>1 ! merged)) \<sigma>1 =
        (t, \<sigma>1\<lparr>frames := frames \<sigma>1 @ [transpose_frame M]\<rparr>)"
      by (simp add: alloc_def t_def M_def)
    have u3: "update t (\<lambda>f. f\<lparr>index_names := [Some ''sample'']\<rparr>)
        (\<sigma>1\<lparr>frames := frames \<sigma>1 @ [transpose_frame M]\<rparr>) = \<sigma>3"
      by (simp add: update_def t_def \<sigma>3_def T_def)
    have ft: "frames \<sigma>3 ! t = T" by (simp add: \<sigma>3_def t_def)
    have k3: "keeps n \<sigma>0 \<sigma>3"
      using k1 n by (auto simp: keeps_def \<sigma>3_def)
    show ?thesis
    proof (cases md)
      case MetaNone
      with res m Inr a2 u3 have "res = Inl (MergeOperandError ''NoneType'')"
        by (simp add: merge_level_h_def)
      with pm MetaNone show ?thesis
        by (simp add: merge_level_def read_result_def merge_metadata_def deref_metadata_def)
    next
      case (MetaOther v)
      with res m Inr a2 u3 have "res = Inl (MergeOperandError ''object'')"
        by (simp add: merge_level_h_def)
      with pm MetaOther show ?thesis
        by (simp add: merge_level_def read_result_def merge_metadata_def deref_metadata_def)
    next
      case (MetaFrame mref)
      with md have "mref < n" by simp
      from keeps_nth [OF k3 this] have fm: "frames \<sigma>3 ! mref = frames \<sigma>0 ! mref" .
      define J where "J = merge_left T (frames \<sigma>0 ! mref)"
      define X where "X = transpose_frame J"
      define tmpDF where "tmpDF = Suc (length (frames \<sigma>3))"
      define \<sigma>5 where "\<sigma>5 = \<sigma>3\<lparr>frames := frames \<sigma>3 @ [J, X]\<rparr>"
      have a4: "alloc (merge_left (frames \<sigma>3 ! t) (frames \<sigma>3 ! mref)) \<sigma>3 =
          (length (frames \<sigma>3), \<sigma>3\<lparr>frames := frames \<sigma>3 @ [J]\<rparr>)"
        by (simp add: alloc_def ft fm J_def)
      have a5: "alloc (transpose_frame (frames (\<sigma>3\<lparr>frames := frames \<sigma>3 @ [J]\<rparr>) ! length (frames \<sigma>3)))
          (\<sigma>3\<lparr>frames := frames \<sigma>3 @ [J]\<rparr>) = (tmpDF, \<sigma>5)"
        by (simp add: alloc_def tmpDF_def \<sigma>5_def X_def)
      have f5: "frames \<sigma>5 ! tmpDF = X" "tmpDF < length (frames \<sigma>5)"
        by (simp_all add: \<sigma>5_def tmpDF_def nth_append)
      from res m Inr a2 u3 MetaFrame a4 a5 f5(1)
      have r: "(\<sigma>', res) = (case label_index hier level X of
                 Inl e \<Rightarrow> (\<sigma>5, Inl e)
               | Inr f \<Rightarrow> (update tmpDF (\<lambda>old. f) \<sigma>5, Inr tmpDF))"
        by (simp add: merge_level_h_def)
      have pure: "merge_level hier (deref \<sigma>0 c) (deref_metadata \<sigma>0 md) level = label_index hier level X"
        by (simp add: merge_level_def pm MetaFrame deref_metadata_def merge_metadata_def
            T_def J_def X_def)
      show ?thesis
      proof (cases "label_index hier level X")
        case (Inl e)
        with r pure show ?thesis by (simp add: read_result_def)
      next
        case f: (Inr f)
        with r have "\<sigma>' = update tmpDF (\<lambda>old. f) \<sigma>5" "res = Inr tmpDF" by simp_all
        with f5(2) f pure show ?thesis
          by (simp add: read_result_def update_def)
      qed
    qed
  qed
  then show "read_result (\<sigma>', res) = merge_level hier (deref \<sigma>0 c) (deref_metadata \<sigma>0 md) level"
    and "\<forall>r. res = Inr r \<longrightarrow> r < length (frames \<sigma>')"
    by simp_all
qed

lemma deref_dict_upd:
  assumes "keeps (length (frames \<sigma>)) \<sigma> \<sigma>1" "\<forall>r\<in>ran d. r < length (frames \<sigma>)"
  shows "deref_dict \<sigma>1 (d(l \<mapsto> r)) = (deref_dict \<sigma> d)(l \<mapsto> frames \<sigma>1 ! r)"
proof (rule ext)
  fix k
  show "deref_dict \<sigma>1 (d(l \<mapsto> r)) k = ((deref_dict \<sigma> d)(l \<mapsto> frames \<sigma>1 ! r)) k"
  proof (cases "d k")
    case None
    then show ?thesis by (simp add: deref_dict_def)
  next
    case (Some a)
    then have "a \<in> ran d" by (auto simp: ran_def)
    with assms(2) have "a < length (frames \<sigma>)" by blast
    from keeps_nth [OF assms(1) this] Some show ?thesis by (simp add: deref_dict_def)
  qed
qed

lemma ran_upd_less:
  assumes "\<forall>r\<in>ran d. r < (m::nat)" "r < m'" "m \<le> m'"
  shows "\<forall>x\<in>ran (d(l \<mapsto> r)). x < m'"
proof
  fix x assume "x \<in> ran (d(l \<mapsto> r))"
  then obtain k where k: "(d(l \<mapsto> r)) k = Some x" by (auto simp: ran_def)
  show "x < m'"
  proof (cases "k = l")
    case True
    with k assms(2) show ?thesis by simp
  next
    case False
    with k have "x \<in> ran d" by (auto simp: ran_def)
    with assms(1,3) show ?thesis by fastforce
  qed
qed

lemma taxLevels_loop_h_value:
  assumes "taxLevels_loop_h hier c md ls d \<sigma> = (\<sigma>', res)"
    and "keeps n \<sigma>0 \<sigma>" and "n \<le> length (frames \<sigma>0)"
    and "\<forall>entries. c = Dict entries \<longrightarrow> (\<forall>(s, d)\<in>set entries. \<forall>r\<in>ran d. r < n)"
    and "\<forall>m. md = MetaFrame m \<longrightarrow> m < n"
    and "\<forall>r\<in>ran d. r < length (frames \<sigma>)"
  shows "read_dict (\<sigma>', res) =
           taxLevels_loop hier (deref \<sigma>0 c) (deref_metadata \<sigma>0 md) ls (deref_dict \<sigma> d)"
  using assms(1,2,6)
proof (induction ls arbitrary: d \<sigma>)
  case Nil
  then show ?case by (auto simp: read_dict_def)
next
  case (Cons l ls)
  obtain \<sigma>1 r where m: "merge_level_h hier c md l \<sigma> = (\<sigma>1, r)" by fastforce
  note v = merge_level_h_value [OF Cons.prems(2) assms(3,4,5) m]
  have kk: "keeps (length (frames \<sigma>)) \<sigma> \<sigma>1"
    by (rule merge_level_h_keeps [OF m order_refl])
  have k1: "keeps n \<sigma>0 \<sigma>1"
    using merge_level_h_keeps [OF m keeps_length [OF Cons.prems(2) assms(3)]] Cons.prems(2)
    by (blast intro: keeps_trans)
  show ?case
  proof (cases r)
    case (Inl e)
    with v(1) have "merge_level hier (deref \<sigma>0 c) (deref_metadata \<sigma>0 md) l = Inl e"
      by (simp add: read_result_def)
    moreover from Cons.prems(1) m Inl have "res = Inl e" by simp
    ultimately show ?thesis by (simp add: read_dict_def)
  next
    case (Inr tmpDF)
    with v have pv: "merge_level hier (deref \<sigma>0 c) (deref_metadata \<sigma>0 md) l = Inr (frames \<sigma>1 ! tmpDF)"
      and lt: "tmpDF < length (frames \<sigma>1)"
      by (simp_all add: read_result_def)
    from kk have "length (frames \<sigma>) \<le> length (frames \<sigma>1)" by (simp add: keeps_def)
    from ran_upd_less [OF Cons.prems(3) lt this]
    have r1: "\<forall>x\<in>ran (d(l \<mapsto> tmpDF)). x < length (frames \<sigma>1)" .
    from Cons.prems(1) m Inr
    have "taxLevels_loop_h hier c md ls (d(l \<mapsto> tmpDF)) \<sigma>1 = (\<sigma>', res)" by simp
    from Cons.IH [OF this k1 r1]
    have "read_dict (\<sigma>', res) = taxLevels_loop hier (deref \<sigma>0 c) (deref_metadata \<sigma>0 md) ls
        (deref_dict \<sigma>1 (d(l \<mapsto> tmpDF)))" .
    with pv deref_dict_upd [OF kk Cons.prems(3)] show ?thesis by simp
  qed
qed

lemma deref_dict_empty [simp]: "deref_dict \<sigma> Map.empty = Map.empty"
  by (simp add: deref_dict_def)

lemma mergeAcrossSamplesTaxLevels_h_value:
  assumes c: "in_store \<sigma> c" and md: "\<forall>m. md = MetaFrame m \<longrightarrow> m < length (frames \<sigma>)"
  shows "read_dict (mergeAcrossSamplesTaxLevels_h hier c md \<sigma>) =
           mergeAcrossSamplesTaxLevels hier (deref \<sigma> c) (deref_metadata \<sigma> md)"
proof -
  from c have c': "\<forall>entries. c = Dict entries \<longrightarrow>
      (\<forall>(s, d)\<in>set entries. \<forall>r\<in>ran d. r < length (frames \<sigma>))"
    by (fastforce simp: in_store_def entries_in_store_def)
  have "read_dict (fst (taxLevels_loop_h hier c md hier Map.empty \<sigma>),
                   snd (taxLevels_loop_h hier c md hier Map.empty \<sigma>)) =
        taxLevels_loop hier (deref \<sigma> c) (deref_metadata \<sigma> md) hier (deref_dict \<sigma> Map.empty)"
    by (rule taxLevels_loop_h_value [OF surjective_pairing keeps_refl order_refl c' md]) simp
  then have l: "read_dict (taxLevels_loop_h hier c md hier Map.empty \<sigma>) =
        taxLevels_loop hier (deref \<sigma> c) (deref_metadata \<sigma> md) hier Map.empty"
    by simp
  show ?thesis
  proof (cases "validateSampleDictTaxHistDict c")
    case (Inl e)
    then show ?thesis
      by (simp add: mergeAcrossSamplesTaxLevels_h_def mergeAcrossSamplesTaxLevels_def
          validate_deref read_dict_def)
  next
    case (Inr u)
    with l show ?thesis
      by (cases md)
         (simp_all add: mergeAcrossSamplesTaxLevels_h_def mergeAcrossSamplesTaxLevels_def
          validate_deref read_dict_def deref_metadata_def)
  qed
qed

lemma mergeAcrossSamples_h_agrees:
  assumes "in_store \<sigma> c"
  shows "read_result (mergeAcrossSamples_h hier c level \<sigma>) = mergeAcrossSamples hier (deref \<sigma> c) level"
  using assms
  by (intro mergeAcrossSamples_h_value [OF keeps_refl order_refl])
     (fastforce simp: in_store_def entries_in_store_def)

lemma apply_frame_column: "column_cells (apply_frame h) 0 = apply_percent (column_cells h 0)"
proof -
  define total where "total = float64 (of_int (sum_list (map cell_int (column_cells h 0))))"
  define g where "g = (\<lambda>x :: label \<times> cell list.
      FloatV (float64 (float64 (of_int (100 * cell_int (case x of (k, r) \<Rightarrow> cell_at r 0))) / total)))"
  have ap: "apply_percent (column_cells h 0) = map g (body h)"
    by (simp add: apply_percent_def Let_def column_cells_def total_def g_def comp_def)
  have "map (\<lambda>(k, r). cell_at r 0) (map2 (\<lambda>(k, r) v. (k, [v])) xs (map g xs)) = map g xs" for xs
    by (induction xs) (auto simp: cell_at_def)
  from this [of "body h"]
  have "map (\<lambda>(k, r). cell_at r 0)
          (map2 (\<lambda>(k, r) v. (k, [v])) (body h) (apply_percent (column_cells h 0))) =
        apply_percent (column_cells h 0)"
    by (simp only: ap)
  then show ?thesis
    by (simp add: apply_frame_def column_cells_def)
qed

lemma level_histogram_h_value:
  assumes "level_histogram_h srt hier df i \<sigma> = (\<sigma>', res)"
  shows "read_result (\<sigma>', res) = level_histogram srt hier (tables \<sigma> ! df) i"
    and "\<forall>r. res = Inr r \<longrightarrow> r < length (frames \<sigma>')"
proof -
  have "read_result (\<sigma>', res) = level_histogram srt hier (tables \<sigma> ! df) i \<and>
        (\<forall>r. res = Inr r \<longrightarrow> r < length (frames \<sigma>'))"
  proof (cases "groupby_size (take (i + 1) hier) (tables \<sigma> ! df)")
    case (Inl e)
    with assms show ?thesis
      by (auto simp: level_histogram_h_def level_histogram_def read_result_def)
  next
    case (Inr s)
    define F where "F = DataFrame_of ''count'' s"
    show ?thesis
    proof (cases "sort_by srt ''count'' F")
      case (Inl e)
      with assms Inr show ?thesis
        by (auto simp: level_histogram_h_def level_histogram_def read_result_def alloc_def F_def)
    next
      case h: (Inr h)
      define P where "P = set_column ''percent'' (apply_percent (column_cells h 0)) h"
      from assms Inr h have "res = Inr (Suc (length (frames \<sigma>)))"
        and "frames \<sigma>' = frames \<sigma> @ [F, P, apply_frame h]"
        by (auto simp: level_histogram_h_def alloc_def update_def F_def P_def nth_append
            apply_frame_column list_update_append)
      with Inr h show ?thesis
        by (simp add: level_histogram_def read_result_def F_def P_def nth_append)
    qed
  qed
  then show "read_result (\<sigma>', res) = level_histogram srt hier (tables \<sigma> ! df) i"
    and "\<forall>r. res = Inr r \<longrightarrow> r < length (frames \<sigma>')"
    by simp_all
qed

lemma computeAll_loop_h_value:
  assumes "computeAll_loop_h srt hier df js d \<sigma> = (\<sigma>', res)"
    and "\<forall>r\<in>ran d. r < length (frames \<sigma>)"
  shows "read_dict (\<sigma>', res) = computeAll_loop srt hier (tables \<sigma> ! df) js (deref_dict \<sigma> d)"
  using assms
proof (induction js arbitrary: d \<sigma>)
  case Nil
  then show ?case by (auto simp: read_dict_def)
next
  case (Cons i js)
  obtain \<sigma>1 r where l: "level_histogram_h srt hier df i \<sigma> = (\<sigma>1, r)" by fastforce
  note v = level_histogram_h_value [OF l]
  have kk: "keeps (length (frames \<sigma>)) \<sigma> \<sigma>1"
    by (rule level_histogram_h_keeps [OF l order_refl])
  then have tb: "tables \<sigma>1 = tables \<sigma>" by (simp add: keeps_def)
  show ?case
  proof (cases r)
    case (Inl e)
    with v(1) have "level_histogram srt hier (tables \<sigma> ! df) i = Inl e"
      by (simp add: read_result_def)
    moreover from Cons.prems(1) l Inl have "res = Inl e" by simp
    ultimately show ?thesis by (simp add: read_dict_def)
  next
    case (Inr a)
    with v have pv: "level_histogram srt hier (tables \<sigma> ! df) i = Inr (frames \<sigma>1 ! a)"
      and lt: "a < length (frames \<sigma>1)"
      by (simp_all add: read_result_def)
    from kk have "length (frames \<sigma>) \<le> length (frames \<sigma>1)" by (simp add: keeps_def)
    from ran_upd_less [OF Cons.prems(2) lt this]
    have r1: "\<forall>x\<in>ran (d(hier ! i \<mapsto> a)). x < length (frames \<sigma>1)" .
    from Cons.prems(1) l Inr
    have "computeAll_loop_h srt hier df js (d(hier ! i \<mapsto> a)) \<sigma>1 = (\<sigma>', res)" by simp
    from Cons.IH [OF this r1]
    have "read_dict (\<sigma>', res) = computeAll_loop srt hier (tables \<sigma> ! df) js
        (deref_dict \<sigma>1 (d(hier ! i \<mapsto> a)))" by (simp only: tb)
    with pv deref_dict_upd [OF kk Cons.prems(2)] show ?thesis by simp
  qed
qed

lemma computeAll_h_agrees:
  "read_dict (computeAll_h srt hier df \<sigma>) = computeAll srt hier (tables \<sigma> ! df)"
proof -
  have "read_dict (fst (computeAll_h srt hier df \<sigma>), snd (computeAll_h srt hier df \<sigma>)) =
      computeAll_loop srt hier (tables \<sigma> ! df) [0..<length hier] (deref_dict \<sigma> Map.empty)"
    unfolding computeAll_h_def by (rule computeAll_loop_h_value [OF surjective_pairing]) simp
  then show ?thesis by (simp add: computeAll_def)
qed

end
